theory Spec2Isabelle
  imports Main
begin

section \<open>Python string primitives used by the validators\<close>

text \<open>
  Strings are lists of ASCII characters. \<open>str.strip()\<close> without argument removes the
  characters for which \<open>str.isspace()\<close> holds; in the ASCII range these are the codes
  9 to 13, 28 to 31 and 32.
\<close>

definition is_space :: "char \<Rightarrow> bool" where
  "is_space c =
     (c \<in> set [CHR 0x09, CHR 0x0A, CHR 0x0B, CHR 0x0C, CHR 0x0D,
                CHR 0x1C, CHR 0x1D, CHR 0x1E, CHR 0x1F, CHR 0x20])"

definition strip :: "string \<Rightarrow> string" where
  "strip s = rev (dropWhile is_space (rev (dropWhile is_space s)))"

text \<open>\<open>s.split(c)\<close> for a one-character separator: never empty, \<open>"".split(",") == [""]\<close>.\<close>

fun split_on :: "char \<Rightarrow> string \<Rightarrow> string list" where
  "split_on c [] = [[]]"
| "split_on c (x # xs) =
     (if x = c then [] # split_on c xs
      else (case split_on c xs of
              [] \<Rightarrow> [[x]]
            | p # ps \<Rightarrow> (x # p) # ps))"

text \<open>\<open>s.split(c, maxsplit=1)\<close> on a string that contains \<open>c\<close>: the text before the first
  occurrence and the text after it.\<close>

definition split_first :: "char \<Rightarrow> string \<Rightarrow> string \<times> string" where
  "split_first c s = (takeWhile (\<lambda>x. x \<noteq> c) s, tl (dropWhile (\<lambda>x. x \<noteq> c) s))"

text \<open>\<open>sep.join(parts)\<close>.\<close>

fun join :: "string \<Rightarrow> string list \<Rightarrow> string" where
  "join sep [] = []"
| "join sep [p] = p"
| "join sep (p # q # ps) = p @ sep @ join sep (q # ps)"

subsection \<open>Decimal integers: \<open>int(s)\<close> and \<open>str(n)\<close>\<close>

definition is_digit :: "char \<Rightarrow> bool" where
  "is_digit c = (48 \<le> (of_char c :: nat) \<and> (of_char c :: nat) \<le> 57)"

definition digit_val :: "char \<Rightarrow> int" where
  "digit_val c = int (of_char c) - 48"

definition digit_char :: "nat \<Rightarrow> char" where
  "digit_char d = char_of (48 + d)"

text \<open>
  The body of a decimal literal: groups of digits separated by single underscores
  (\<open>int("1_000") == 1000\<close>); it starts and ends with a digit.
\<close>

fun digit_groups :: "string \<Rightarrow> bool" where
  "digit_groups [] = False"
| "digit_groups [c] = is_digit c"
| "digit_groups (c # d # r) =
     (is_digit c \<and> (if d = CHR ''_'' then digit_groups r else digit_groups (d # r)))"

definition int_value :: "string \<Rightarrow> int" where
  "int_value body = foldl (\<lambda>a c. 10 * a + digit_val c) 0 (filter is_digit body)"

text \<open>
  \<open>int(s)\<close> in base 10: surrounding white space is ignored, one sign is allowed, and
  the rest must be a literal body. \<open>None\<close> stands for the \<open>ValueError\<close> that
  \<open>int\<close> raises on anything else.
\<close>

definition py_int :: "string \<Rightarrow> int option" where
  "py_int s =
     (case strip s of
        [] \<Rightarrow> None
      | c # r \<Rightarrow>
          if c = CHR ''-'' then (if digit_groups r then Some (- int_value r) else None)
          else if c = CHR ''+'' then (if digit_groups r then Some (int_value r) else None)
          else if digit_groups (c # r) then Some (int_value (c # r)) else None)"

function digits :: "nat \<Rightarrow> string" where
  "digits n = (if n < 10 then [digit_char n] else digits (n div 10) @ [digit_char (n mod 10)])"
  by pat_completeness auto
termination
  by (relation "measure (\<lambda>n. n)") auto

declare digits.simps [simp del]

text \<open>\<open>str(n)\<close> for an integer.\<close>

definition py_str :: "int \<Rightarrow> string" where
  "py_str n = (if n < 0 then CHR ''-'' # digits (nat (- n)) else digits (nat n))"

section \<open>validators.py\<close>

text \<open>
  \<open>parse_customer_ids\<close> returns \<open>(True, ids)\<close> or \<open>(False, message)\<close>. The failure
  is kept structured: \<open>Invalid_range part\<close> is the return at the reversed range, and
  \<open>Invalid_format lit\<close> is the handler of the \<open>ValueError\<close> that \<open>int(lit)\<close> raised.
  \<open>error_message\<close> renders the message; the text of Python's own exception is its
  parameter \<open>exc_text\<close>.
\<close>

datatype parse_error = Invalid_range string | Invalid_format string

fun error_message :: "(string \<Rightarrow> string) \<Rightarrow> parse_error \<Rightarrow> string" where
  "error_message exc_text (Invalid_range part) = ''Invalid range '' @ part"
| "error_message exc_text (Invalid_format lit) = ''Invalid customer ID format: '' @ exc_text lit"

text \<open>
  The body of the \<open>for part in parts\<close> loop, with the list \<open>ids\<close> built so far.
  \<open>ids.extend(range(start, end + 1))\<close> appends \<open>[start..end]\<close>.
\<close>

fun parse_parts :: "string list \<Rightarrow> int list \<Rightarrow> parse_error + int list" where
  "parse_parts [] ids = Inr ids"
| "parse_parts (raw # parts) ids =
     (let part = strip raw in
      if part = [] then parse_parts parts ids
      else if CHR ''-'' \<in> set part then
        (case split_first CHR ''-'' part of
           (start_raw, end_raw) \<Rightarrow>
             (case py_int (strip start_raw) of
                None \<Rightarrow> Inl (Invalid_format (strip start_raw))
              | Some start \<Rightarrow>
                  (case py_int (strip end_raw) of
                     None \<Rightarrow> Inl (Invalid_format (strip end_raw))
                   | Some end \<Rightarrow>
                       if end < start then Inl (Invalid_range part)
                       else parse_parts parts (ids @ [start..end]))))
      else
        (case py_int part of
           None \<Rightarrow> Inl (Invalid_format part)
         | Some v \<Rightarrow> parse_parts parts (ids @ [v])))"

text \<open>\<open>sorted(set(ids))\<close>.\<close>

definition sorted_set :: "int list \<Rightarrow> int list" where
  "sorted_set ids = sort (remdups ids)"

definition parse_customer_ids :: "string \<Rightarrow> parse_error + int list" where
  "parse_customer_ids customer_ids_str =
     (if customer_ids_str = [] \<or> strip customer_ids_str = [] then Inr []
      else (case parse_parts (split_on CHR '','' customer_ids_str) [] of
              Inl e \<Rightarrow> Inl e
            | Inr ids \<Rightarrow> Inr (sorted_set ids)))"

text \<open>\<open>normalize_customer_ids\<close>: the values are integers already, so \<open>int(value)\<close> is
  the identity.\<close>

definition normalize_customer_ids :: "int list \<Rightarrow> int list" where
  "normalize_customer_ids values = sorted_set values"

text \<open>\<open>", ".join(map(str, customer_ids))\<close>: how the edit form of the Group Access page
  renders the ids of a stored rule into its text input.\<close>

definition render_customer_ids :: "int list \<Rightarrow> string" where
  "render_customer_ids customer_ids = join '', '' (map py_str customer_ids)"

text \<open>
  \<open>validate_identifier\<close>: \<open>re.match\<close> of \<open>^[A-Za-z_][A-Za-z0-9_]*$\<close>. Without the
  multi-line flag, \<open>$\<close> matches at the end of the string and also just before one
  final line feed.
\<close>

definition is_ident_start :: "char \<Rightarrow> bool" where
  "is_ident_start c =
     ((65 \<le> (of_char c :: nat) \<and> (of_char c :: nat) \<le> 90)
      \<or> (97 \<le> (of_char c :: nat) \<and> (of_char c :: nat) \<le> 122)
      \<or> c = CHR ''_'')"

definition is_ident_char :: "char \<Rightarrow> bool" where
  "is_ident_char c = (is_ident_start c \<or> is_digit c)"

definition validate_identifier :: "string \<Rightarrow> bool" where
  "validate_identifier v =
     (case v of
        [] \<Rightarrow> False
      | c # r \<Rightarrow>
          is_ident_start c \<and>
          (list_all is_ident_char r
           \<or> (r \<noteq> [] \<and> last r = CHR 0x0A \<and> list_all is_ident_char (butlast r))))"

section \<open>config/settings.py and the signed-in user\<close>

record app_settings =
  catalog :: string
  schema :: string
  access_table :: string
  audit_table :: string
  admin_group :: string

definition qualify_table :: "string \<Rightarrow> app_settings \<Rightarrow> string" where
  "qualify_table table_name settings =
     (if CHR ''.'' \<in> set table_name then table_name
      else catalog settings @ ''.'' @ schema settings @ ''.'' @ table_name)"

text \<open>
  \<open>get_current_user_email\<close> looks the e-mail up in the forwarded headers and in the
  user info, swallowing every exception; its argument here is what that lookup found.
  It ends with \<open>return email or "unknown"\<close>.
\<close>

definition get_current_user_email :: "string option \<Rightarrow> string" where
  "get_current_user_email found =
     (case found of None \<Rightarrow> ''unknown'' | Some email \<Rightarrow> if email = [] then ''unknown'' else email)"

record session =
  settings :: app_settings
  email :: "string option"

section \<open>utils/db\_connection.py: statements, connectors and the warehouse\<close>

text \<open>
  Dates are day numbers. An exception is a value of type \<open>exn\<close>: \<open>Error\<close> is
  raised while a statement is sent (no connection, no permission, a syntax error),
  \<open>ValueError\<close> by Python itself.
\<close>

type_synonym date = int

datatype exn = Error string | ValueError

text \<open>
  The SQL expression that \<open>add_access_rule\<close> and \<open>update_access_rule\<close> splice into
  their statement for the \<open>customer_ids\<close> column, and its text.
\<close>

datatype sql_array = SqlNULL | SqlArray "int list"

fun sql_text :: "sql_array \<Rightarrow> string" where
  "sql_text SqlNULL = ''NULL''"
| "sql_text (SqlArray ids) = ''array('' @ join '','' (map py_str ids) @ '')''"

text \<open>
  One constructor for each statement of the repository that is modelled: the table it
  names, the spliced expression, then the bound parameters in the order of the source's
  \<open>params\<close> dictionary. \<open>Sql\<close> is a statement given as text only
  (\<open>ALTER TABLE ... SET TAGS\<close> of the propagation).
\<close>

datatype statement =
    Insert_access string sql_array string string date "date option" "string option" string
  | Update_access string sql_array int string string date "date option" "string option" string
  | Expire_access string int string
  | Delete_access string int
  | Insert_audit string string string string string "string option" "string option" "string option"
  | Sql string

text \<open>
  A connector runs one statement against a world: it raises, or it reports
  \<open>cursor.rowcount\<close> (which may be \<open>None\<close>). \<open>execute_update\<close> returns
  \<open>cursor.rowcount or 0\<close> and lets every exception through.
\<close>

type_synonym 'w connector = "statement \<Rightarrow> 'w \<Rightarrow> (exn + int option) \<times> 'w"

definition execute_update :: "'w connector \<Rightarrow> statement \<Rightarrow> 'w \<Rightarrow> (exn + int) \<times> 'w" where
  "execute_update conn query w =
     (case conn query w of
        (Inl e, w') \<Rightarrow> (Inl e, w')
      | (Inr rowcount, w') \<Rightarrow> (Inr (case rowcount of None \<Rightarrow> 0 | Some n \<Rightarrow> n), w'))"

subsection \<open>The warehouse: the access table and the audit table\<close>

record access_row =
  row_id :: int
  group_name :: string
  customer_ids :: "int list option"
  access_type :: string
  effective_date :: "date option"
  expiration_date :: "date option"
  rule_notes :: "string option"
  created_by :: string
  modified_by :: string

record audit_row =
  user :: string
  action_type :: string
  object_type :: string
  object_name :: string
  old_value :: "string option"
  new_value :: "string option"
  audit_notes :: "string option"

text \<open>
  The warehouse holds the two tables, the value of \<open>CURRENT_DATE()\<close>, the next row
  id, the statements it has been sent (in order), and \<open>faults\<close>: for each coming call
  whether it raises (\<open>Some e\<close>) or runs (\<open>None\<close>, also when the list is used up).
  Time stamps are not modelled.
\<close>

record warehouse =
  access_rows :: "access_row list"
  audit_rows :: "audit_row list"
  today :: date
  next_id :: int
  sent :: "statement list"
  faults :: "exn option list"

fun array_value :: "sql_array \<Rightarrow> int list option" where
  "array_value SqlNULL = None"
| "array_value (SqlArray ids) = Some ids"

text \<open>\<open>expiration_date <= CURRENT_DATE()\<close> as a \<open>WHERE\<close> condition: a \<open>NULL\<close> date
  does not satisfy it.\<close>

definition expired_by :: "date \<Rightarrow> access_row \<Rightarrow> bool" where
  "expired_by d r = (case expiration_date r of None \<Rightarrow> False | Some x \<Rightarrow> x \<le> d)"

fun apply_statement :: "statement \<Rightarrow> warehouse \<Rightarrow> int option \<times> warehouse" where
  "apply_statement (Insert_access tbl ids g t eff exp n u) w =
     (Some 1,
      w\<lparr>access_rows := access_rows w @
           [\<lparr>row_id = next_id w, group_name = g, customer_ids = array_value ids,
             access_type = t, effective_date = Some eff, expiration_date = exp, rule_notes = n,
             created_by = u, modified_by = u\<rparr>],
        next_id := next_id w + 1\<rparr>)"
| "apply_statement (Update_access tbl ids rid g t eff exp n u) w =
     (Some (int (length (filter (\<lambda>r. row_id r = rid) (access_rows w)))),
      w\<lparr>access_rows :=
           map (\<lambda>r. if row_id r = rid
                     then r\<lparr>group_name := g, customer_ids := array_value ids, access_type := t,
                            effective_date := Some eff, expiration_date := exp, rule_notes := n,
                            modified_by := u\<rparr>
                     else r) (access_rows w)\<rparr>)"
| "apply_statement (Expire_access tbl rid u) w =
     (Some (int (length (filter (\<lambda>r. row_id r = rid) (access_rows w)))),
      w\<lparr>access_rows :=
           map (\<lambda>r. if row_id r = rid
                     then r\<lparr>expiration_date := Some (today w), modified_by := u\<rparr>
                     else r) (access_rows w)\<rparr>)"
| "apply_statement (Delete_access tbl rid) w =
     (Some (int (length (filter (\<lambda>r. row_id r = rid \<and> expired_by (today w) r) (access_rows w)))),
      w\<lparr>access_rows :=
           filter (\<lambda>r. \<not> (row_id r = rid \<and> expired_by (today w) r)) (access_rows w)\<rparr>)"
| "apply_statement (Insert_audit tbl u a ot on ov nv n) w =
     (Some 1,
      w\<lparr>audit_rows := audit_rows w @
           [\<lparr>user = u, action_type = a, object_type = ot, object_name = on,
             old_value = ov, new_value = nv, audit_notes = n\<rparr>]\<rparr>)"
| "apply_statement (Sql text) w = (None, w)"

definition next_fault :: "warehouse \<Rightarrow> exn option" where
  "next_fault w = (case faults w of Some e # rest \<Rightarrow> Some e | _ \<Rightarrow> None)"

definition warehouse_run :: "warehouse connector" where
  "warehouse_run query w =
     (let w1 = w\<lparr>sent := sent w @ [query], faults := tl (faults w)\<rparr> in
      case next_fault w of
        Some e \<Rightarrow> (Inl e, w1)
      | None \<Rightarrow> (case apply_statement query w1 of (rowcount, w2) \<Rightarrow> (Inr rowcount, w2)))"

text \<open>No coming call raises.\<close>

definition no_fault :: "warehouse \<Rightarrow> bool" where
  "no_fault w = list_all (\<lambda>f. f = None) (faults w)"

section \<open>utils/audit\_logger.py\<close>

text \<open>The \<open>INSERT\<close> statement of \<open>log_action\<close> with its parameters.\<close>

definition audit_query ::
  "session \<Rightarrow> string \<Rightarrow> string \<Rightarrow> string \<Rightarrow> string option \<Rightarrow> string option \<Rightarrow> string option \<Rightarrow>
   statement" where
  "audit_query s action_type' object_type' object_name' old_value' new_value' notes' =
     Insert_audit (qualify_table (audit_table (settings s)) (settings s))
       (get_current_user_email (email s))
       action_type' object_type' object_name' old_value' new_value' notes'"

definition log_action ::
  "'w connector \<Rightarrow> session \<Rightarrow> string \<Rightarrow> string \<Rightarrow> string \<Rightarrow> string option \<Rightarrow> string option \<Rightarrow>
   string option \<Rightarrow> 'w \<Rightarrow> (exn + unit) \<times> 'w" where
  "log_action conn s action_type' object_type' object_name' old_value' new_value' notes' w =
     (case execute_update conn
             (audit_query s action_type' object_type' object_name' old_value' new_value' notes') w of
        (Inl e, w') \<Rightarrow> (Inl e, w')
      | (Inr n, w') \<Rightarrow> (Inr (), w'))"

section \<open>utils/access\_manager.py\<close>

definition customer_ids_array :: "int list \<Rightarrow> sql_array" where
  "customer_ids_array normalized_ids =
     (if normalized_ids \<noteq> [] then SqlArray normalized_ids else SqlNULL)"

text \<open>\<open>str(ids)\<close> for a list of integers, as the f-strings of the audit values
  print it.\<close>

definition py_list_str :: "int list \<Rightarrow> string" where
  "py_list_str ids = ''['' @ join '', '' (map py_str ids) @ '']''"

text \<open>The \<open>INSERT\<close> statement of \<open>add_access_rule\<close> with its parameters.\<close>

definition insert_query ::
  "session \<Rightarrow> string \<Rightarrow> int list \<Rightarrow> string \<Rightarrow> date \<Rightarrow> date option \<Rightarrow> string option \<Rightarrow> statement" where
  "insert_query s group_name' normalized_ids access_type' effective_date' expiration_date' notes' =
     Insert_access (qualify_table (access_table (settings s)) (settings s))
       (customer_ids_array normalized_ids)
       group_name' access_type' effective_date' expiration_date' notes'
       (get_current_user_email (email s))"

definition add_access_rule ::
  "'w connector \<Rightarrow> session \<Rightarrow> string \<Rightarrow> int list \<Rightarrow> string \<Rightarrow> date \<Rightarrow> date option \<Rightarrow>
   string option \<Rightarrow> 'w \<Rightarrow> (exn + bool) \<times> 'w" where
  "add_access_rule conn s group_name' customer_ids' access_type' effective_date' expiration_date'
     notes' w =
     (let normalized_ids = normalize_customer_ids customer_ids';
          query = insert_query s group_name' normalized_ids access_type' effective_date'
                    expiration_date' notes'
      in case execute_update conn query w of
           (Inl e, w1) \<Rightarrow> (Inl e, w1)
         | (Inr n, w1) \<Rightarrow>
             (case log_action conn s ''INSERT'' ''GROUP_ACCESS'' group_name' None
                     (Some (''customer_ids='' @ py_list_str normalized_ids @
                            '', access_type='' @ access_type'))
                     notes' w1 of
                (Inl e, w2) \<Rightarrow> (Inl e, w2)
              | (Inr u, w2) \<Rightarrow> (Inr True, w2)))"

text \<open>The \<open>UPDATE\<close> statement of \<open>update_access_rule\<close> with its parameters.\<close>

definition update_query ::
  "session \<Rightarrow> int \<Rightarrow> string \<Rightarrow> int list \<Rightarrow> string \<Rightarrow> date \<Rightarrow> date option \<Rightarrow> string option \<Rightarrow>
   statement" where
  "update_query s rule_id group_name' normalized_ids access_type' effective_date' expiration_date'
     notes' =
     Update_access (qualify_table (access_table (settings s)) (settings s))
       (customer_ids_array normalized_ids) rule_id
       group_name' access_type' effective_date' expiration_date' notes'
       (get_current_user_email (email s))"

definition update_access_rule ::
  "'w connector \<Rightarrow> session \<Rightarrow> int \<Rightarrow> string \<Rightarrow> int list \<Rightarrow> string \<Rightarrow> date \<Rightarrow> date option \<Rightarrow>
   string option \<Rightarrow> 'w \<Rightarrow> (exn + bool) \<times> 'w" where
  "update_access_rule conn s rule_id group_name' customer_ids' access_type' effective_date'
     expiration_date' notes' w =
     (let normalized_ids = normalize_customer_ids customer_ids';
          query = update_query s rule_id group_name' normalized_ids access_type' effective_date'
                    expiration_date' notes'
      in case execute_update conn query w of
           (Inl e, w1) \<Rightarrow> (Inl e, w1)
         | (Inr n, w1) \<Rightarrow>
             (case log_action conn s ''UPDATE'' ''GROUP_ACCESS'' (py_str rule_id) None
                     (Some (''group_name='' @ group_name' @ '', customer_ids='' @
                            py_list_str normalized_ids @ '', access_type='' @ access_type'))
                     notes' w1 of
                (Inl e, w2) \<Rightarrow> (Inl e, w2)
              | (Inr u, w2) \<Rightarrow> (Inr True, w2)))"

definition expire_access_rule :: "'w connector \<Rightarrow> session \<Rightarrow> int \<Rightarrow> 'w \<Rightarrow> (exn + bool) \<times> 'w" where
  "expire_access_rule conn s rule_id w =
     (let query = Expire_access (qualify_table (access_table (settings s)) (settings s)) rule_id
                    (get_current_user_email (email s))
      in case execute_update conn query w of
           (Inl e, w1) \<Rightarrow> (Inl e, w1)
         | (Inr n, w1) \<Rightarrow>
             (case log_action conn s ''EXPIRE'' ''GROUP_ACCESS'' (py_str rule_id) None
                     (Some ''expired'') (Some ''Manually expired via UI'') w1 of
                (Inl e, w2) \<Rightarrow> (Inl e, w2)
              | (Inr u, w2) \<Rightarrow> (Inr True, w2)))"

text \<open>
  \<open>delete_access_rule\<close>: \<open>if row_count:\<close> is true for every count other than 0, and
  the function returns \<open>row_count > 0\<close>.
\<close>

definition delete_query :: "session \<Rightarrow> int \<Rightarrow> statement" where
  "delete_query s rule_id =
     Delete_access (qualify_table (access_table (settings s)) (settings s)) rule_id"

definition delete_access_rule :: "'w connector \<Rightarrow> session \<Rightarrow> int \<Rightarrow> 'w \<Rightarrow> (exn + bool) \<times> 'w" where
  "delete_access_rule conn s rule_id w =
     (let query = delete_query s rule_id
      in case execute_update conn query w of
           (Inl e, w1) \<Rightarrow> (Inl e, w1)
         | (Inr row_count, w1) \<Rightarrow>
             if row_count \<noteq> 0 then
               (case log_action conn s ''DELETE'' ''GROUP_ACCESS'' (py_str rule_id) None
                       (Some ''deleted'') (Some ''Deleted via UI after expiration'') w1 of
                  (Inl e, w2) \<Rightarrow> (Inl e, w2)
                | (Inr u, w2) \<Rightarrow> (Inr (row_count > 0), w2))
             else (Inr (row_count > 0), w1))"

section \<open>utils/tag\_manager.py\<close>

text \<open>
  \<open>apply_table_tag\<close> makes the same two calls as the operations on access rules,
  \<open>execute_update\<close> and then \<open>log_action\<close>, inside \<open>try ... except Exception\<close>:
  it returns \<open>(True, message)\<close> or \<open>(False, message)\<close> and lets no exception of
  theirs through. \<open>exc_str\<close> is \<open>str(exc)\<close>.
\<close>

definition tag_sql :: "string \<Rightarrow> string \<Rightarrow> string \<Rightarrow> string" where
  "tag_sql full_name tag_name' tag_value' =
     ''ALTER TABLE '' @ full_name @ '' SET TAGS ('' @ [CHR 0x27] @ tag_name' @ [CHR 0x27] @
     '' = '' @ [CHR 0x27] @ tag_value' @ [CHR 0x27] @ '')''"

definition apply_table_tag ::
  "(exn \<Rightarrow> string) \<Rightarrow> 'w connector \<Rightarrow> session \<Rightarrow> string \<Rightarrow> string \<Rightarrow> string \<Rightarrow> string \<Rightarrow>
   string \<Rightarrow> 'w \<Rightarrow> (bool \<times> string) \<times> 'w" where
  "apply_table_tag exc_str conn s catalog' schema' table' tag_name' tag_value' w =
     (if \<not> validate_identifier tag_name'
      then ((False, ''Tag name contains invalid characters.''), w)
      else
        (let full_name = catalog' @ ''.'' @ schema' @ ''.'' @ table';
             query = Sql (tag_sql full_name tag_name' tag_value')
         in case execute_update conn query w of
              (Inl exc, w1) \<Rightarrow> ((False, ''Error applying tag: '' @ exc_str exc), w1)
            | (Inr n, w1) \<Rightarrow>
                (case log_action conn s ''TAG_APPLY'' ''TABLE_TAG'' full_name None
                        (Some (tag_name' @ ''='' @ tag_value'))
                        (Some (''Applied by '' @ get_current_user_email (email s))) w1 of
                   (Inl exc, w2) \<Rightarrow> ((False, ''Error applying tag: '' @ exc_str exc), w2)
                 | (Inr u, w2) \<Rightarrow> ((True, ''Tag applied successfully.''), w2))))"

section \<open>pages/4\_RLS\_ABAC\_Tools.py: the generated row filter\<close>

text \<open>
  The function that \<open>_render_function_builder\<close> creates is
  \<open>EXISTS (SELECT 1 FROM access_table gca WHERE ...)\<close>. Its \<open>WHERE\<close> clause is
  evaluated in SQL's three-valued logic (\<open>None\<close> is \<open>NULL\<close>); a row is selected when
  the clause is true. \<open>is_member\<close> is the group check for the querying user.
\<close>

type_synonym sql_bool = "bool option"

definition sql_and :: "sql_bool \<Rightarrow> sql_bool \<Rightarrow> sql_bool" where
  "sql_and a b =
     (if a = Some False \<or> b = Some False then Some False
      else if a = Some True \<and> b = Some True then Some True else None)"

definition sql_or :: "sql_bool \<Rightarrow> sql_bool \<Rightarrow> sql_bool" where
  "sql_or a b =
     (if a = Some True \<or> b = Some True then Some True
      else if a = Some False \<and> b = Some False then Some False else None)"

definition sql_not :: "sql_bool \<Rightarrow> sql_bool" where
  "sql_not a = map_option Not a"

definition array_contains :: "int list option \<Rightarrow> int \<Rightarrow> sql_bool" where
  "array_contains arr x = (case arr of None \<Rightarrow> None | Some xs \<Rightarrow> Some (x \<in> set xs))"

definition sql_le :: "date option \<Rightarrow> date \<Rightarrow> sql_bool" where
  "sql_le a d = map_option (\<lambda>x. x \<le> d) a"

definition sql_gt :: "date option \<Rightarrow> date \<Rightarrow> sql_bool" where
  "sql_gt a d = map_option (\<lambda>x. x > d) a"

definition access_filter_where :: "(string \<Rightarrow> bool) \<Rightarrow> date \<Rightarrow> int \<Rightarrow> access_row \<Rightarrow> sql_bool" where
  "access_filter_where is_member current_date customer_id gca =
     sql_and
       (sql_and
          (sql_and (Some (is_member (group_name gca)))
             (sql_or (Some (effective_date gca = None)) (sql_le (effective_date gca) current_date)))
          (sql_or (Some (expiration_date gca = None)) (sql_gt (expiration_date gca) current_date)))
       (sql_or
          (sql_or (Some (customer_ids gca = None))
             (sql_and (Some (access_type gca = ''INCLUDE''))
                (array_contains (customer_ids gca) customer_id)))
          (sql_and (Some (access_type gca = ''EXCLUDE''))
             (sql_not (array_contains (customer_ids gca) customer_id))))"

definition customer_access_filter :: "(string \<Rightarrow> bool) \<Rightarrow> warehouse \<Rightarrow> int \<Rightarrow> bool" where
  "customer_access_filter is_member w customer_id =
     list_ex (\<lambda>gca. access_filter_where is_member (today w) customer_id gca = Some True)
       (access_rows w)"

section \<open>pages/3\_Audit\_Reports.py and pages/1\_Group\_Access.py: reading a stored rule\<close>

definition upper_char :: "char \<Rightarrow> char" where
  "upper_char c =
     (if 97 \<le> (of_char c :: nat) \<and> (of_char c :: nat) \<le> 122
      then char_of ((of_char c :: nat) - 32) else c)"

text \<open>\<open>_build_access_summary\<close>: \<open>rule.get("customer_ids") or []\<close> reads a
  \<open>NULL\<close> column as the empty list.\<close>

definition build_access_summary :: "access_row \<Rightarrow> string" where
  "build_access_summary rule =
     (let access_type' = map upper_char (access_type rule);
          customer_ids' = (case customer_ids rule of None \<Rightarrow> [] | Some ids \<Rightarrow> ids);
          customer_count = int (length customer_ids')
      in if access_type' = ''INCLUDE'' then
           (if customer_ids' = [] then ''Access given as ADMIN, all customers available''
            else ''Access INCLUDED for '' @ py_str customer_count @
                 '' customers, EXCLUDED for all others'')
         else if access_type' = ''EXCLUDE'' then
           (if customer_ids' = [] then ''Access EXCLUDED for all customers''
            else ''Access EXCLUDED for '' @ py_str customer_count @
                 '' customers, PROVIDED for all others'')
         else ''Access rules not specified'')"

text \<open>\<open>_normalize_ids\<close> of the Group Access page, on the value of the
  \<open>customer_ids\<close> column.\<close>

definition normalize_ids :: "int list option \<Rightarrow> int list" where
  "normalize_ids v = (case v of None \<Rightarrow> [] | Some items \<Rightarrow> items)"

section \<open>utils/auth.py\<close>

text \<open>
  A result row is a dictionary from column names to values. \<open>execute_query\<close> raises
  or returns the rows; here it is a parameter, so that every behaviour of the query is
  covered.
\<close>

datatype py_value = PyNone | PyBool bool | PyInt int | PyStr string

fun truthy :: "py_value \<Rightarrow> bool" where
  "truthy PyNone = False"
| "truthy (PyBool b) = b"
| "truthy (PyInt n) = (n \<noteq> 0)"
| "truthy (PyStr s) = (s \<noteq> [])"

type_synonym row = "(string \<times> py_value) list"

definition dict_get :: "row \<Rightarrow> string \<Rightarrow> py_value" where
  "dict_get r k = (case map_of r k of None \<Rightarrow> PyNone | Some v \<Rightarrow> v)"

type_synonym 'w querier = "string \<Rightarrow> 'w \<Rightarrow> (exn + row list) \<times> 'w"

text \<open>\<open>value.replace("'", "''")\<close>.\<close>

definition escape_sql_string :: "string \<Rightarrow> string" where
  "escape_sql_string v = concat (map (\<lambda>c. if c = CHR 0x27 then [c, c] else [c]) v)"

definition admin_query :: "app_settings \<Rightarrow> string" where
  "admin_query settings' =
     ''SELECT is_member('' @ [CHR 0x27] @ escape_sql_string (admin_group settings') @ [CHR 0x27] @
     '') AS is_admin''"

definition check_admin_access :: "'w querier \<Rightarrow> app_settings \<Rightarrow> 'w \<Rightarrow> bool \<times> 'w" where
  "check_admin_access execute_query settings' w =
     (case execute_query (admin_query settings') w of
        (Inl exc, w') \<Rightarrow> (False, w')
      | (Inr result, w') \<Rightarrow>
          (case result of
             [] \<Rightarrow> (False, w')
           | first # others \<Rightarrow> (truthy (dict_get first ''is_admin''), w')))"

section \<open>utils/rls\_abac\_manager.py\<close>

record propagation_action =
  table_fqn :: string
  column_name :: string
  tag_name :: string
  tag_value :: string
  sql :: string

definition quote_identifier :: "string \<Rightarrow> string" where
  "quote_identifier v =
     [CHR 0x60] @ concat (map (\<lambda>c. if c = CHR 0x60 then [c, c] else [c]) v) @ [CHR 0x60]"

definition quote_fqn :: "string list \<Rightarrow> string" where
  "quote_fqn parts = join ''.'' (map quote_identifier parts)"

definition split_rls_types :: "string \<Rightarrow> string list" where
  "split_rls_types v = map strip (filter (\<lambda>item. strip item \<noteq> []) (split_on CHR '','' v))"

subsection \<open>The metadata the discovery queries read\<close>

text \<open>
  A snapshot of \<open>system.information_schema\<close>: the rows of \<open>catalog_tags\<close>
  (catalog, tag name, tag value), \<open>schema_tags\<close>, \<open>table_tags\<close>, \<open>tables\<close> and
  \<open>columns\<close>. A tag value may be \<open>NULL\<close>.
\<close>

record metadata =
  catalog_tags :: "(string \<times> string \<times> string option) list"
  schema_tags :: "(string \<times> string \<times> string \<times> string option) list"
  table_tags :: "(string \<times> string \<times> string \<times> string \<times> string option) list"
  tables :: "(string \<times> string \<times> string) list"
  columns :: "(string \<times> string \<times> string \<times> string) list"

text \<open>\<open>if target_catalog:\<close> adds the condition only for a non-empty string.\<close>

definition wanted :: "string option \<Rightarrow> string \<Rightarrow> bool" where
  "wanted target name = (case target of None \<Rightarrow> True | Some t \<Rightarrow> t = [] \<or> name = t)"

definition get_tagged_catalogs :: "metadata \<Rightarrow> string \<Rightarrow> string option \<Rightarrow> (string \<times> string option) list" where
  "get_tagged_catalogs md tag target_catalog =
     map (\<lambda>(c, t, v). (c, v))
       (filter (\<lambda>(c, t, v). t = tag \<and> wanted target_catalog c) (catalog_tags md))"

definition get_tagged_schemas ::
  "metadata \<Rightarrow> string \<Rightarrow> string option \<Rightarrow> string option \<Rightarrow> (string \<times> string \<times> string option) list" where
  "get_tagged_schemas md tag target_catalog target_schema =
     map (\<lambda>(c, s, t, v). (c, s, v))
       (filter (\<lambda>(c, s, t, v). t = tag \<and> wanted target_catalog c \<and> wanted target_schema s)
          (schema_tags md))"

definition get_tagged_tables ::
  "metadata \<Rightarrow> string \<Rightarrow> string option \<Rightarrow> string option \<Rightarrow>
   (string \<times> string \<times> string \<times> string option) list" where
  "get_tagged_tables md tag target_catalog target_schema =
     map (\<lambda>(c, s, n, t, v). (c, s, n, v))
       (filter (\<lambda>(c, s, n, t, v). t = tag \<and> wanted target_catalog c \<and> wanted target_schema s)
          (table_tags md))"

text \<open>\<open>SELECT DISTINCT\<close>.\<close>

definition get_tables_in_catalog :: "metadata \<Rightarrow> string \<Rightarrow> (string \<times> string \<times> string) list" where
  "get_tables_in_catalog md c = remdups (filter (\<lambda>(tc, ts, tn). tc = c) (tables md))"

definition get_tables_in_schema :: "metadata \<Rightarrow> string \<Rightarrow> string \<Rightarrow> (string \<times> string \<times> string) list" where
  "get_tables_in_schema md c s = remdups (filter (\<lambda>(tc, ts, tn). tc = c \<and> ts = s) (tables md))"

text \<open>\<open>get_table_columns\<close> drops empty names (\<open>if row.get("column_name")\<close>). The
  \<open>ORDER BY\<close> of its query is left out: the list is used for a membership test only.\<close>

definition get_table_columns :: "metadata \<Rightarrow> string \<Rightarrow> string \<Rightarrow> string \<Rightarrow> string list" where
  "get_table_columns md c s n =
     filter (\<lambda>col. col \<noteq> [])
       (map (\<lambda>(tc, ts, tn, col). col)
          (filter (\<lambda>(tc, ts, tn, col). tc = c \<and> ts = s \<and> tn = n) (columns md)))"

subsection \<open>\<open>build_propagation_plan\<close>\<close>

text \<open>\<open>str(row.get("tag_value", ""))\<close>: a \<open>NULL\<close> value prints as \<open>None\<close>.\<close>

definition str_value :: "string option \<Rightarrow> string" where
  "str_value v = (case v of None \<Rightarrow> ''None'' | Some s \<Rightarrow> s)"

definition table_key :: "string \<Rightarrow> string \<Rightarrow> string \<Rightarrow> string" where
  "table_key c s n = c @ ''.'' @ s @ ''.'' @ n"

text \<open>
  \<open>tables_to_process\<close> is a dictionary from table key to a set of categories, iterated
  in insertion order: a list of pairs with distinct keys.
  \<open>tables_to_process.setdefault(key, set()).update(types)\<close>:
\<close>

fun setdefault_update :: "string \<Rightarrow> string list \<Rightarrow> (string \<times> string set) list \<Rightarrow> (string \<times> string set) list" where
  "setdefault_update key types [] = [(key, set types)]"
| "setdefault_update key types ((k, s) # rest) =
     (if k = key then (k, s \<union> set types) # rest else (k, s) # setdefault_update key types rest)"

definition collect_tables ::
  "metadata \<Rightarrow> string \<Rightarrow> string option \<Rightarrow> string option \<Rightarrow> (string \<times> string set) list" where
  "collect_tables md parent_tag_name target_catalog target_schema =
     (let from_catalogs =
            foldl (\<lambda>acc (c, v).
                     foldl (\<lambda>acc (tc, ts, tn).
                              setdefault_update (table_key tc ts tn) (split_rls_types (str_value v)) acc)
                       acc (get_tables_in_catalog md c))
              [] (get_tagged_catalogs md parent_tag_name target_catalog);
          from_schemas =
            foldl (\<lambda>acc (c, s, v).
                     foldl (\<lambda>acc (tc, ts, tn).
                              setdefault_update (table_key tc ts tn) (split_rls_types (str_value v)) acc)
                       acc (get_tables_in_schema md c s))
              from_catalogs (get_tagged_schemas md parent_tag_name target_catalog target_schema)
      in foldl (\<lambda>acc (c, s, n, v).
                  setdefault_update (table_key c s n) (split_rls_types (str_value v)) acc)
           from_schemas (get_tagged_tables md parent_tag_name target_catalog target_schema))"

text \<open>\<open>catalog, schema, table = table_fqn.split(".", maxsplit=2)\<close>: with fewer than two
  dots the unpacking raises \<open>ValueError\<close> (\<open>None\<close>).\<close>

definition split_fqn :: "string \<Rightarrow> (string \<times> string \<times> string) option" where
  "split_fqn fqn =
     (if CHR ''.'' \<notin> set fqn then None
      else (case split_first CHR ''.'' fqn of
              (c, rest) \<Rightarrow>
                if CHR ''.'' \<notin> set rest then None
                else (case split_first CHR ''.'' rest of (s, n) \<Rightarrow> Some (c, s, n))))"

definition alter_sql :: "string \<Rightarrow> string \<Rightarrow> string \<Rightarrow> string \<Rightarrow> string \<Rightarrow> string \<Rightarrow> string" where
  "alter_sql c s n col tag val =
     ''ALTER TABLE '' @ quote_fqn [c, s, n] @ '' ALTER COLUMN '' @ quote_identifier col @
     '' SET TAGS ('' @ [CHR 0x27] @ escape_sql_string tag @ [CHR 0x27] @ '' = '' @
     [CHR 0x27] @ escape_sql_string val @ [CHR 0x27] @ '')''"

fun plan_actions ::
  "metadata \<Rightarrow> string \<Rightarrow> string \<Rightarrow> string \<Rightarrow> string \<Rightarrow> (string \<times> string set) list \<Rightarrow>
   propagation_action list \<Rightarrow> exn + propagation_action list" where
  "plan_actions md required col tag val [] actions = Inr actions"
| "plan_actions md required col tag val ((fqn, rls_types) # rest) actions =
     (if required \<notin> rls_types then plan_actions md required col tag val rest actions
      else (case split_fqn fqn of
              None \<Rightarrow> Inl ValueError
            | Some (c, s, n) \<Rightarrow>
                if col \<notin> set (get_table_columns md c s n)
                then plan_actions md required col tag val rest actions
                else plan_actions md required col tag val rest
                       (actions @
                        [\<lparr>table_fqn = fqn, column_name = col, tag_name = tag, tag_value = val,
                          sql = alter_sql c s n col tag val\<rparr>])))"

definition build_propagation_plan ::
  "metadata \<Rightarrow> string \<Rightarrow> string \<Rightarrow> string \<Rightarrow> string \<Rightarrow> string \<Rightarrow> string option \<Rightarrow> string option \<Rightarrow>
   exn + propagation_action list" where
  "build_propagation_plan md parent_tag_name required_parent_tag col column_tag_name
     column_tag_value target_catalog target_schema =
     plan_actions md required_parent_tag col column_tag_name column_tag_value
       (collect_tables md parent_tag_name target_catalog target_schema) []"

subsection \<open>\<open>apply_propagation\<close>\<close>

text \<open>The loop of \<open>apply_propagation\<close> with the list \<open>executed\<close> built so far. There
  is no handler: an exception of \<open>execute_update\<close> ends the call.\<close>

fun apply_loop ::
  "'w connector \<Rightarrow> propagation_action list \<Rightarrow> string list \<Rightarrow> 'w \<Rightarrow> (exn + string list) \<times> 'w" where
  "apply_loop conn [] executed w = (Inr executed, w)"
| "apply_loop conn (action # rest) executed w =
     (case execute_update conn (Sql (sql action)) w of
        (Inl e, w') \<Rightarrow> (Inl e, w')
      | (Inr n, w') \<Rightarrow> apply_loop conn rest (executed @ [sql action]) w')"

definition apply_propagation ::
  "'w connector \<Rightarrow> propagation_action list \<Rightarrow> 'w \<Rightarrow> (exn + string list) \<times> 'w" where
  "apply_propagation conn actions w = apply_loop conn actions [] w"

section \<open>Notions used in the statements about the access rules\<close>

text \<open>Some stored rule has the given id, and its expiration date is not \<open>NULL\<close> and
  not after the current date.\<close>

definition deletable :: "warehouse \<Rightarrow> int \<Rightarrow> bool" where
  "deletable w rule_id =
     list_ex (\<lambda>r. row_id r = rule_id \<and> expired_by (today w) r) (access_rows w)"

text \<open>The audit record that \<open>delete_access_rule\<close> writes.\<close>

definition delete_entry :: "session \<Rightarrow> int \<Rightarrow> audit_row" where
  "delete_entry s rule_id =
     \<lparr>user = get_current_user_email (email s), action_type = ''DELETE'',
      object_type = ''GROUP_ACCESS'', object_name = py_str rule_id, old_value = None,
      new_value = Some ''deleted'', audit_notes = Some ''Deleted via UI after expiration''\<rparr>"

section \<open>Notions used in the statements about the planner\<close>

text \<open>
  The bindings that cover a table, in discovery order: each table of a tagged catalog
  with the catalog's tag value, each table of a tagged schema with the schema's tag
  value, and each tagged table with its own tag value.
\<close>

definition covering ::
  "metadata \<Rightarrow> string \<Rightarrow> string option \<Rightarrow> string option \<Rightarrow>
   ((string \<times> string \<times> string) \<times> string option) list" where
  "covering md tag target_catalog target_schema =
     concat (map (\<lambda>(c, v). map (\<lambda>tbl. (tbl, v)) (get_tables_in_catalog md c))
               (get_tagged_catalogs md tag target_catalog))
     @ concat (map (\<lambda>(c, s, v). map (\<lambda>tbl. (tbl, v)) (get_tables_in_schema md c s))
                 (get_tagged_schemas md tag target_catalog target_schema))
     @ map (\<lambda>(c, s, n, v). ((c, s, n), v)) (get_tagged_tables md tag target_catalog target_schema)"

text \<open>The dictionary key of a table.\<close>

definition key_of :: "string \<times> string \<times> string \<Rightarrow> string" where
  "key_of tbl = (case tbl of (c, s, n) \<Rightarrow> table_key c s n)"

text \<open>The union of the category tokens of the bindings that cover a table.\<close>

definition categories ::
  "metadata \<Rightarrow> string \<Rightarrow> string option \<Rightarrow> string option \<Rightarrow> string \<times> string \<times> string \<Rightarrow>
   string set" where
  "categories md tag target_catalog target_schema tbl =
     \<Union> (set (map (\<lambda>(t, v). set (split_rls_types (str_value v)))
                (filter (\<lambda>(t, v). t = tbl) (covering md tag target_catalog target_schema))))"

text \<open>No catalog name and no schema name of a table contains a dot.\<close>

definition dot_free :: "string \<times> string \<times> string \<Rightarrow> bool" where
  "dot_free tbl = (case tbl of (c, s, n) \<Rightarrow> CHR ''.'' \<notin> set c \<and> CHR ''.'' \<notin> set s)"

definition wf_names :: "metadata \<Rightarrow> bool" where
  "wf_names md =
     (list_all dot_free (tables md)
      \<and> list_all (\<lambda>(c, s, n, t, v). dot_free (c, s, n)) (table_tags md))"

text \<open>The action that the planner emits for a table.\<close>

definition action_for :: "string \<Rightarrow> string \<Rightarrow> string \<Rightarrow> string \<times> string \<times> string \<Rightarrow> propagation_action" where
  "action_for col tag val tbl =
     (case tbl of (c, s, n) \<Rightarrow>
        \<lparr>table_fqn = table_key c s n, column_name = col, tag_name = tag, tag_value = val,
         sql = alter_sql c s n col tag val\<rparr>)"

section \<open>Example settings, sessions and worlds\<close>

definition settings0 :: app_settings where
  "settings0 = \<lparr>catalog = ''main'', schema = ''governance'', access_table = ''group_access'',
                 audit_table = ''audit_log'', admin_group = ''admins''\<rparr>"

definition session0 :: session where
  "session0 = \<lparr>settings = settings0, email = Some ''ada@example.com''\<rparr>"

definition warehouse0 :: warehouse where
  "warehouse0 = \<lparr>access_rows = [], audit_rows = [], today = 100, next_id = 1, sent = [],
                  faults = []\<rparr>"

text \<open>One stored rule, for customers 1 and 3, that expires on the given day.\<close>

definition warehouse_with_rule :: "date \<Rightarrow> warehouse" where
  "warehouse_with_rule expires =
     warehouse0\<lparr>access_rows :=
         [\<lparr>row_id = 1, group_name = ''analysts'', customer_ids = Some [1, 3],
           access_type = ''INCLUDE'', effective_date = Some 50, expiration_date = Some expires,
           rule_notes = None, created_by = ''ada@example.com'',
           modified_by = ''ada@example.com''\<rparr>],
       next_id := 2\<rparr>"

text \<open>A group check under which the user is a member of every group.\<close>

definition member_of_all :: "string \<Rightarrow> bool" where
  "member_of_all g = True"

text \<open>Three behaviours of the membership query: it raises, it returns no row, it
  returns one row with a true \<open>is_admin\<close>.\<close>

definition query_raises :: "unit querier" where
  "query_raises q w = (Inl (Error ''warehouse unreachable''), w)"

definition query_no_rows :: "unit querier" where
  "query_no_rows q w = (Inr [], w)"

definition query_is_admin :: "unit querier" where
  "query_is_admin q w = (Inr [[(''is_admin'', PyBool True)]], w)"

definition action1 :: propagation_action where
  "action1 = \<lparr>table_fqn = ''main.sales.orders'', column_name = ''customer_id'',
               tag_name = ''secure_contracts'', tag_value = ''true'',
               sql = alter_sql ''main'' ''sales'' ''orders'' ''customer_id'' ''secure_contracts'' ''true''\<rparr>"

definition action2 :: propagation_action where
  "action2 = \<lparr>table_fqn = ''main.sales.invoices'', column_name = ''customer_id'',
               tag_name = ''secure_contracts'', tag_value = ''true'',
               sql = alter_sql ''main'' ''sales'' ''invoices'' ''customer_id'' ''secure_contracts'' ''true''\<rparr>"

text \<open>
  A schema tagged \<open>category=A,B\<close> that holds the tables \<open>T\<close> (with a column
  \<open>customer_id\<close>, and tagged \<open>category=C\<close> itself) and \<open>U\<close> (without that column).
\<close>

definition metadata0 :: metadata where
  "metadata0 =
     \<lparr>catalog_tags = [],
      schema_tags = [(''main'', ''sales'', ''category'', Some ''A,B'')],
      table_tags = [(''main'', ''sales'', ''T'', ''category'', Some ''C'')],
      tables = [(''main'', ''sales'', ''T''), (''main'', ''sales'', ''U'')],
      columns = [(''main'', ''sales'', ''T'', ''customer_id''), (''main'', ''sales'', ''U'', ''order_id'')]\<rparr>"

text \<open>One tagged table with the wanted column, in a catalog whose name contains a dot.\<close>

definition metadata_dotted :: metadata where
  "metadata_dotted =
     \<lparr>catalog_tags = [], schema_tags = [],
      table_tags = [(''eu.prod'', ''sales'', ''T'', ''category'', Some ''A'')],
      tables = [(''eu.prod'', ''sales'', ''T'')],
      columns = [(''eu.prod'', ''sales'', ''T'', ''customer_id'')]\<rparr>"

section \<open>Properties of the identifier parser\<close>

lemma sorted_sorted_set: "sorted (sorted_set ids)"
  by (simp add: sorted_set_def)

lemma distinct_sorted_set: "distinct (sorted_set ids)"
  by (simp add: sorted_set_def)

lemma set_sorted_set: "set (sorted_set ids) = set ids"
  by (simp add: sorted_set_def)

lemma sorted_set_fixed: "sorted ids \<Longrightarrow> distinct ids \<Longrightarrow> sorted_set ids = ids"
  by (simp add: sorted_set_def sort_key_id_if_sorted distinct_remdups_id)

lemma sorted_set_idem: "sorted_set (sorted_set ids) = sorted_set ids"
  by (rule sorted_set_fixed) (simp_all add: sorted_sorted_set distinct_sorted_set)

lemma all_dropWhile: "(\<forall>x \<in> set (dropWhile P s). P x) \<longleftrightarrow> (\<forall>x \<in> set s. P x)"
  by (induction s) auto

lemma strip_Nil_iff: "strip s = [] \<longleftrightarrow> (\<forall>c \<in> set s. is_space c)"
  by (simp add: strip_def all_dropWhile)

lemma parse_blank: "\<forall>c \<in> set s. is_space c \<Longrightarrow> parse_customer_ids s = Inr []"
  by (simp add: parse_customer_ids_def strip_Nil_iff)

lemma parse_success_sorted:
  "parse_customer_ids s = Inr ids \<Longrightarrow> sorted ids \<and> distinct ids"
  by (auto simp: parse_customer_ids_def sorted_sorted_set distinct_sorted_set split: if_splits sum.splits)

lemma split_on_no_sep: "p \<in> set (split_on c s) \<Longrightarrow> c \<notin> set p"
  by (induction s arbitrary: p) (auto split: if_splits list.splits)

lemma split_on_not_Nil: "split_on c s \<noteq> []"
  by (induction s) (auto split: list.splits)

lemma split_on_append_sep:
  "c \<notin> set p \<Longrightarrow> split_on c (p @ c # s) = p # split_on c s"
  by (induction p) (auto split: list.splits)

lemma split_on_plain: "c \<notin> set p \<Longrightarrow> split_on c p = [p]"
  by (induction p) (auto split: list.splits)

lemma split_on_join:
  "ps \<noteq> [] \<Longrightarrow> \<forall>p \<in> set ps. c \<notin> set p \<Longrightarrow> split_on c (join [c] ps) = ps"
  by (induction "[c]" ps rule: join.induct) (auto simp: split_on_plain split_on_append_sep)

lemma parse_parts_filter:
  "parse_parts (filter (\<lambda>p. strip p \<noteq> []) ps) ids = parse_parts ps ids"
  by (induction ps arbitrary: ids) (auto simp: Let_def split: option.splits prod.splits)

lemma set_split_on: "p \<in> set (split_on c s) \<Longrightarrow> set p \<subseteq> set s"
  by (induction s arbitrary: p) (fastforce split: if_splits list.splits)+

lemma set_join: "p \<in> set ps \<Longrightarrow> set p \<subseteq> set (join sep ps)"
  by (induction sep ps rule: join.induct) auto

lemma nonblank_join:
  assumes "p \<in> set ps" "strip p \<noteq> []"
  shows "strip (join sep ps) \<noteq> []"
proof -
  from assms(2) obtain x where "x \<in> set p" "\<not> is_space x"
    by (auto simp: strip_Nil_iff)
  with set_join[OF assms(1), of sep] show ?thesis
    by (auto simp: strip_Nil_iff)
qed

lemma parse_parts_all_blank:
  "\<forall>p \<in> set ps. strip p = [] \<Longrightarrow> parse_parts ps ids = Inr ids"
  by (induction ps) auto

lemma parse_drop_blank_parts:
  "parse_customer_ids s =
   parse_customer_ids (join '','' (filter (\<lambda>p. strip p \<noteq> []) (split_on CHR '','' s)))"
proof -
  let ?ps = "split_on CHR '','' s"
  let ?fs = "filter (\<lambda>p. strip p \<noteq> []) ?ps"
  show ?thesis
  proof (cases "?fs = []")
    case True
    then have blank: "\<forall>p \<in> set ?ps. strip p = []"
      by (simp add: filter_empty_conv)
    have "parse_parts ?ps [] = Inr []"
      by (rule parse_parts_all_blank[OF blank])
    then have "parse_customer_ids s = Inr []"
      by (simp add: parse_customer_ids_def sorted_set_def)
    moreover have "parse_customer_ids (join '','' ?fs) = Inr []"
      using True by (simp add: parse_customer_ids_def)
    ultimately show ?thesis by simp
  next
    case False
    then obtain p where p: "p \<in> set ?fs" by (cases ?fs) auto
    then have p_in: "p \<in> set ?ps" and p_nb: "strip p \<noteq> []" by auto
    have nb_join: "strip (join '','' ?fs) \<noteq> []"
      by (rule nonblank_join[OF p]) (rule p_nb)
    from p_nb obtain x where x: "x \<in> set p" "\<not> is_space x"
      by (auto simp: strip_Nil_iff)
    with set_split_on[OF p_in] have nb_s: "strip s \<noteq> []"
      by (auto simp: strip_Nil_iff)
    have "\<forall>q \<in> set ?fs. CHR '','' \<notin> set q"
      by (auto dest: split_on_no_sep)
    with False have split_join: "split_on CHR '','' (join '','' ?fs) = ?fs"
      by (rule split_on_join)
    have "parse_customer_ids (join '','' ?fs) =
          (case parse_parts ?fs [] of Inl e \<Rightarrow> Inl e | Inr ids \<Rightarrow> Inr (sorted_set ids))"
    proof -
      from nb_join have "join '','' ?fs \<noteq> []" by (auto simp: strip_def)
      with nb_join show ?thesis
        by (simp only: parse_customer_ids_def split_join) simp
    qed
    also have "\<dots> = (case parse_parts ?ps [] of Inl e \<Rightarrow> Inl e | Inr ids \<Rightarrow> Inr (sorted_set ids))"
      by (simp only: parse_parts_filter)
    also have "\<dots> = parse_customer_ids s"
    proof -
      from nb_s have "s \<noteq> []" by (auto simp: strip_def)
      with nb_s show ?thesis
        by (simp only: parse_customer_ids_def) simp
    qed
    finally show ?thesis by simp
  qed
qed

lemma of_char_digit_char: "d < 10 \<Longrightarrow> (of_char (digit_char d) :: nat) = 48 + d"
  by (simp add: digit_char_def)

lemma is_digit_digit_char: "d < 10 \<Longrightarrow> is_digit (digit_char d)"
  by (simp add: is_digit_def of_char_digit_char)

lemma digit_val_digit_char: "d < 10 \<Longrightarrow> digit_val (digit_char d) = int d"
  by (simp add: digit_val_def of_char_digit_char)

lemma digits_not_Nil: "digits n \<noteq> []"
  by (subst digits.simps) simp

lemma is_digit_digits: "c \<in> set (digits n) \<Longrightarrow> is_digit c"
proof (induction n arbitrary: c rule: digits.induct)
  case (1 n)
  show ?case
  proof (cases "n < 10")
    case True
    with "1.prems" show ?thesis
      by (subst (asm) digits.simps) (simp add: is_digit_digit_char)
  next
    case False
    with "1.prems" have "c \<in> set (digits (n div 10)) \<or> c = digit_char (n mod 10)"
      by (subst (asm) digits.simps) auto
    with False "1.IH" show ?thesis
      by (auto simp: is_digit_digit_char)
  qed
qed

lemma foldl_digits:
  "foldl (\<lambda>a c. 10 * a + digit_val c) 0 (digits n) = int n"
proof (induction n rule: digits.induct)
  case (1 n)
  show ?case
  proof (cases "n < 10")
    case True
    then show ?thesis
      by (subst digits.simps) (simp add: digit_val_digit_char)
  next
    case False
    with "1.IH" show ?thesis
      by (subst digits.simps) (simp add: digit_val_digit_char zdiv_int zmod_int)
  qed
qed

lemma int_value_digits: "int_value (digits n) = int n"
  by (simp add: int_value_def is_digit_digits foldl_digits)

lemma is_digit_not_special:
  "is_digit c \<Longrightarrow> \<not> is_space c \<and> c \<noteq> CHR ''_'' \<and> c \<noteq> CHR ''-'' \<and> c \<noteq> CHR ''+'' \<and> c \<noteq> CHR '',''"
  by (auto simp: is_digit_def is_space_def)

lemma digit_groups_all_digits:
  "s \<noteq> [] \<Longrightarrow> \<forall>c \<in> set s. is_digit c \<Longrightarrow> digit_groups s"
  by (induction s rule: digit_groups.induct) (auto dest: is_digit_not_special)

lemma dropWhile_none: "\<forall>c \<in> set s. \<not> P c \<Longrightarrow> dropWhile P s = s"
  by (cases s) auto

lemma strip_no_space: "\<forall>c \<in> set s. \<not> is_space c \<Longrightarrow> strip s = s"
  by (simp add: strip_def dropWhile_none)

lemma strip_digits: "strip (digits n) = digits n"
  by (rule strip_no_space) (auto dest: is_digit_digits is_digit_not_special)

lemma py_int_digits: "py_int (digits n) = Some (int n)"
proof -
  obtain c r where cr: "digits n = c # r"
    using digits_not_Nil [of n] by (cases "digits n") auto
  have "is_digit c" using is_digit_digits [of c n] cr by simp
  then have "c \<noteq> CHR ''-''" "c \<noteq> CHR ''+''" using is_digit_not_special by blast+
  moreover have "digit_groups (c # r)"
  proof -
    have "\<forall>x \<in> set (digits n). is_digit x" by (simp add: is_digit_digits)
    with digits_not_Nil [of n] have "digit_groups (digits n)"
      by (rule digit_groups_all_digits)
    then show ?thesis by (simp add: cr)
  qed
  moreover have "int_value (c # r) = int n" using int_value_digits [of n] cr by simp
  ultimately show ?thesis
    by (simp add: py_int_def strip_digits cr [symmetric]) (simp add: cr)
qed

lemma py_int_py_str: "0 \<le> n \<Longrightarrow> py_int (py_str n) = Some n"
  by (simp add: py_str_def py_int_digits)

lemma set_strip_subset: "set (strip s) \<subseteq> set s"
proof
  fix x assume "x \<in> set (strip s)"
  then have "x \<in> set (dropWhile is_space (rev (dropWhile is_space s)))"
    by (simp add: strip_def)
  then have "x \<in> set (rev (dropWhile is_space s))" by (rule set_dropWhileD)
  then have "x \<in> set (dropWhile is_space s)" by simp
  then show "x \<in> set s" by (rule set_dropWhileD)
qed

lemma foldl_digits_nonneg:
  "0 \<le> a \<Longrightarrow> \<forall>c \<in> set xs. is_digit c \<Longrightarrow> 0 \<le> foldl (\<lambda>a c. 10 * a + digit_val c) a xs"
  by (induction xs arbitrary: a) (auto simp: is_digit_def digit_val_def)

lemma int_value_nonneg: "0 \<le> int_value s"
  unfolding int_value_def by (rule foldl_digits_nonneg) auto

lemma py_int_nonneg:
  assumes "py_int t = Some v" "CHR ''-'' \<notin> set t"
  shows "0 \<le> v"
proof (cases "strip t")
  case Nil
  with assms(1) show ?thesis by (simp add: py_int_def)
next
  case (Cons c r)
  then have "c \<in> set t" using set_strip_subset [of t] by auto
  with assms(2) have "c \<noteq> CHR ''-''" by auto
  with assms(1) Cons show ?thesis
    by (auto simp: py_int_def int_value_nonneg split: if_splits)
qed

lemma takeWhile_no_sep: "c \<notin> set (takeWhile (\<lambda>x. x \<noteq> c) s)"
  by (induction s) auto

lemma parse_parts_nonneg:
  "parse_parts ps acc = Inr ids \<Longrightarrow> \<forall>i \<in> set acc. 0 \<le> i \<Longrightarrow> \<forall>i \<in> set ids. 0 \<le> i"
proof (induction ps arbitrary: acc)
  case Nil
  then show ?case by simp
next
  case (Cons raw ps)
  let ?part = "strip raw"
  show ?case
  proof (cases "?part = []")
    case True
    with Cons.prems Cons.IH [of acc] show ?thesis by simp
  next
    case nb: False
    show ?thesis
    proof (cases "CHR ''-'' \<in> set ?part")
      case True
      let ?s = "strip (takeWhile (\<lambda>x. x \<noteq> CHR ''-'') ?part)"
      let ?e = "strip (tl (dropWhile (\<lambda>x. x \<noteq> CHR ''-'') ?part))"
      from Cons.prems(1) nb True obtain start end' where
        st: "py_int ?s = Some start" and en: "py_int ?e = Some end'"
        and le: "\<not> end' < start"
        and rest: "parse_parts ps (acc @ [start..end']) = Inr ids"
        by (auto simp: Let_def split_first_def split: option.splits if_splits)
      have "CHR ''-'' \<notin> set ?s"
        using set_strip_subset [of "takeWhile (\<lambda>x. x \<noteq> CHR ''-'') ?part"]
          takeWhile_no_sep [of "CHR ''-''" ?part] by blast
      with st have "0 \<le> start" by (rule py_int_nonneg)
      then have "\<forall>i \<in> set (acc @ [start..end']). 0 \<le> i"
        using Cons.prems(2) by auto
      with rest show ?thesis by (rule Cons.IH)
    next
      case False
      from Cons.prems(1) nb False obtain v where
        v: "py_int ?part = Some v" and rest: "parse_parts ps (acc @ [v]) = Inr ids"
        by (auto simp: Let_def split: option.splits)
      from v False have "0 \<le> v" by (rule py_int_nonneg)
      then have "\<forall>i \<in> set (acc @ [v]). 0 \<le> i"
        using Cons.prems(2) by auto
      with rest show ?thesis by (rule Cons.IH)
    qed
  qed
qed

lemma parse_nonneg: "parse_customer_ids s = Inr ids \<Longrightarrow> \<forall>i \<in> set ids. 0 \<le> i"
proof -
  assume a: "parse_customer_ids s = Inr ids"
  show ?thesis
  proof (cases "s = [] \<or> strip s = []")
    case True
    with a show ?thesis by (auto simp: parse_customer_ids_def)
  next
    case False
    with a obtain raw where raw: "parse_parts (split_on CHR '','' s) [] = Inr raw"
      and ids: "ids = sorted_set raw"
      by (auto simp: parse_customer_ids_def split: sum.splits)
    from raw have "\<forall>i \<in> set raw. 0 \<le> i" by (rule parse_parts_nonneg) simp
    with ids show ?thesis by (simp add: set_sorted_set)
  qed
qed

lemma split_on_prefix:
  "c \<notin> set sep \<Longrightarrow> split_on c (sep @ s) = (sep @ hd (split_on c s)) # tl (split_on c s)"
  by (induction sep) (auto simp: split_on_not_Nil split: list.splits)

lemma split_on_join_sep:
  "ps \<noteq> [] \<Longrightarrow> \<forall>p \<in> set ps. c \<notin> set p \<Longrightarrow> c \<notin> set sep \<Longrightarrow>
   split_on c (join (c # sep) ps) = hd ps # map (\<lambda>p. sep @ p) (tl ps)"
proof (induction "c # sep" ps rule: join.induct)
  case 1
  then show ?case by simp
next
  case (2 p)
  then show ?case by (simp add: split_on_plain)
next
  case (3 p q ps)
  then have ih: "split_on c (join (c # sep) (q # ps)) = q # map (\<lambda>p. sep @ p) ps"
    by simp
  have "join (c # sep) (p # q # ps) = p @ c # (sep @ join (c # sep) (q # ps))"
    by simp
  moreover have "c \<notin> set p" using "3.prems" by simp
  ultimately have "split_on c (join (c # sep) (p # q # ps)) = p # split_on c (sep @ join (c # sep) (q # ps))"
    using split_on_append_sep [of c p "sep @ join (c # sep) (q # ps)"] by simp
  also have "split_on c (sep @ join (c # sep) (q # ps)) = (sep @ q) # map (\<lambda>p. sep @ p) ps"
    using "3.prems"(3) by (simp add: split_on_prefix ih)
  finally show ?case by simp
qed

lemma no_special_py_str:
  "0 \<le> i \<Longrightarrow> c \<in> set (py_str i) \<Longrightarrow> \<not> is_space c \<and> c \<noteq> CHR ''-'' \<and> c \<noteq> CHR '',''"
  by (auto simp: py_str_def dest!: is_digit_digits is_digit_not_special)

lemma strip_spaced_py_str:
  "0 \<le> i \<Longrightarrow> strip ('' '' @ py_str i) = py_str i \<and> strip (py_str i) = py_str i"
proof -
  assume "0 \<le> i"
  then have ns: "\<forall>c \<in> set (py_str i). \<not> is_space c" using no_special_py_str by blast
  then have plain: "strip (py_str i) = py_str i" by (rule strip_no_space)
  have sp: "is_space CHR '' ''" by (simp add: is_space_def)
  have d1: "dropWhile is_space (py_str i) = py_str i" using ns by (rule dropWhile_none)
  have d2: "dropWhile is_space ('' '' @ py_str i) = py_str i" using sp d1 by simp
  have "strip ('' '' @ py_str i) = strip (py_str i)"
    by (simp only: strip_def d1 d2)
  with plain show ?thesis by simp
qed

lemma parse_parts_rendered:
  "list_all2 (\<lambda>p i. strip p = py_str i \<and> 0 \<le> i) ps ids \<Longrightarrow> parse_parts ps acc = Inr (acc @ ids)"
proof (induction ps ids arbitrary: acc rule: list_all2_induct)
  case Nil
  then show ?case by simp
next
  case (Cons p ps i ids)
  from Cons.hyps(1) have sp: "strip p = py_str i" and nn: "0 \<le> i" by simp_all
  have ne: "py_str i \<noteq> []" using nn by (simp add: py_str_def digits_not_Nil)
  have nd: "CHR ''-'' \<notin> set (py_str i)" using no_special_py_str [OF nn] by blast
  have "py_int (py_str i) = Some i" using nn by (rule py_int_py_str)
  with sp ne nd Cons.IH [of "acc @ [i]"] show ?case by simp
qed

lemma render_parse:
  assumes nn: "\<forall>i \<in> set ids. 0 \<le> i" and so: "sorted ids" and di: "distinct ids"
  shows "parse_customer_ids (render_customer_ids ids) = Inr ids"
proof (cases ids)
  case Nil
  then show ?thesis by (simp add: render_customer_ids_def parse_customer_ids_def)
next
  case (Cons i0 rest)
  let ?ps = "map py_str ids"
  let ?r = "render_customer_ids ids"
  have ps_ne: "?ps \<noteq> []" using Cons by simp
  have nocomma: "\<forall>p \<in> set ?ps. CHR '','' \<notin> set p"
    using nn no_special_py_str by auto
  have split: "split_on CHR '','' ?r = hd ?ps # map (\<lambda>p. '' '' @ p) (tl ?ps)"
    unfolding render_customer_ids_def
    using split_on_join_sep [OF ps_ne nocomma, of "'' ''"] by simp
  have "py_str i0 \<in> set ?ps" using Cons by simp
  moreover have "strip (py_str i0) \<noteq> []"
    using strip_spaced_py_str [of i0] nn Cons by (simp add: py_str_def digits_not_Nil)
  ultimately have nb: "strip ?r \<noteq> []"
    unfolding render_customer_ids_def by (rule nonblank_join)
  then have ne: "?r \<noteq> []" by (auto simp: strip_def)
  have "list_all2 (\<lambda>p i. strip p = py_str i \<and> 0 \<le> i) (hd ?ps # map (\<lambda>p. '' '' @ p) (tl ?ps)) ids"
    using nn Cons strip_spaced_py_str
    by (auto simp: list_all2_conv_all_nth nth_Cons split: nat.splits)
  then have "parse_parts (split_on CHR '','' ?r) [] = Inr ([] @ ids)"
    unfolding split by (rule parse_parts_rendered)
  with nb ne have "parse_customer_ids ?r = Inr (sorted_set ids)"
    by (simp add: parse_customer_ids_def)
  with so di show ?thesis by (simp add: sorted_set_fixed)
qed

lemma parse_render_parse:
  "parse_customer_ids s = Inr ids \<Longrightarrow> parse_customer_ids (render_customer_ids ids) = Inr ids"
  using render_parse parse_nonneg parse_success_sorted by blast

lemma normalize_idem: "normalize_customer_ids (normalize_customer_ids xs) = normalize_customer_ids xs"
  by (simp add: normalize_customer_ids_def sorted_set_idem)

lemma render_plain_parse:
  assumes nn: "\<forall>i \<in> set ids. 0 \<le> i" and so: "sorted ids" and di: "distinct ids"
  shows "parse_customer_ids (join '','' (map py_str ids)) = Inr ids"
proof (cases ids)
  case Nil
  then show ?thesis by (simp add: parse_customer_ids_def)
next
  case (Cons i0 rest)
  let ?ps = "map py_str ids"
  let ?r = "join '','' ?ps"
  have ps_ne: "?ps \<noteq> []" using Cons by simp
  have nocomma: "\<forall>p \<in> set ?ps. CHR '','' \<notin> set p"
    using nn no_special_py_str by auto
  have split: "split_on CHR '','' ?r = ?ps"
    using ps_ne nocomma by (rule split_on_join)
  have "py_str i0 \<in> set ?ps" using Cons by simp
  moreover have "strip (py_str i0) \<noteq> []"
    using strip_spaced_py_str [of i0] nn Cons by (simp add: py_str_def digits_not_Nil)
  ultimately have nb: "strip ?r \<noteq> []"
    by (rule nonblank_join)
  then have ne: "?r \<noteq> []" by (auto simp: strip_def)
  have "list_all2 (\<lambda>p i. strip p = py_str i \<and> 0 \<le> i) ?ps ids"
    using nn strip_spaced_py_str by (auto simp: list_all2_conv_all_nth)
  then have "parse_parts (split_on CHR '','' ?r) [] = Inr ([] @ ids)"
    unfolding split by (rule parse_parts_rendered)
  with nb ne have "parse_customer_ids ?r = Inr (sorted_set ids)"
    by (simp add: parse_customer_ids_def)
  with so di show ?thesis by (simp add: sorted_set_fixed)
qed

lemma split_first_at: "x \<notin> set p \<Longrightarrow> split_first x (p @ x # r) = (p, r)"
  by (induction p) (auto simp: split_first_def)

lemma take_drop_at:
  "x \<in> set xs \<Longrightarrow> xs = takeWhile (\<lambda>y. y \<noteq> x) xs @ x # tl (dropWhile (\<lambda>y. y \<noteq> x) xs)"
  by (induction xs) auto

lemma split_first_rebuild:
  "x \<in> set xs \<Longrightarrow> split_first x xs = (p, r) \<Longrightarrow> xs = p @ x # r"
  using take_drop_at [of x xs] by (simp add: split_first_def)

lemma parse_parts_append:
  "parse_parts (xs @ ys) acc =
     (case parse_parts xs acc of Inl e \<Rightarrow> Inl e | Inr acc' \<Rightarrow> parse_parts ys acc')"
  by (induction xs acc rule: parse_parts.induct)
     (simp_all add: Let_def split: prod.splits option.splits)

lemma parse_parts_acc:
  "parse_parts xs acc =
     (case parse_parts xs [] of Inl e \<Rightarrow> Inl e | Inr ids \<Rightarrow> Inr (acc @ ids))"
proof (induction xs arbitrary: acc)
  case Nil
  then show ?case by simp
next
  case (Cons raw parts)
  have step: "\<And>more. parse_parts parts (acc @ more) =
      (case parse_parts parts more of Inl e \<Rightarrow> Inl e | Inr ids \<Rightarrow> Inr (acc @ ids))"
  proof -
    fix more
    have "parse_parts parts (acc @ more) =
        (case parse_parts parts [] of Inl e \<Rightarrow> Inl e | Inr ids \<Rightarrow> Inr ((acc @ more) @ ids))"
      by (rule Cons.IH)
    moreover have "parse_parts parts more =
        (case parse_parts parts [] of Inl e \<Rightarrow> Inl e | Inr ids \<Rightarrow> Inr (more @ ids))"
      by (rule Cons.IH)
    ultimately show "parse_parts parts (acc @ more) =
      (case parse_parts parts more of Inl e \<Rightarrow> Inl e | Inr ids \<Rightarrow> Inr (acc @ ids))"
      by (simp split: sum.splits)
  qed
  show ?case
    using step [of "[]"] 
    by (simp add: Let_def step split: prod.splits option.splits)
qed

lemma split_on_sep_append:
  "split_on c (s1 @ c # s2) = split_on c s1 @ split_on c s2"
  by (induction s1) (auto simp: split_on_not_Nil split: list.splits)

lemma comma_not_space: "\<not> is_space CHR '',''"
  by (simp add: is_space_def)

lemma parse_as_parts:
  "parse_customer_ids s =
     (case parse_parts (split_on CHR '','' s) [] of
        Inl e \<Rightarrow> Inl e | Inr ids \<Rightarrow> Inr (sorted_set ids))"
proof (cases "strip s = []")
  case True
  then have blank: "\<forall>c \<in> set s. is_space c" by (simp add: strip_Nil_iff)
  then have "CHR '','' \<notin> set s" using comma_not_space by blast
  then have "split_on CHR '','' s = [s]" by (rule split_on_plain)
  then have "parse_parts (split_on CHR '','' s) [] = Inr []"
    using True by simp
  moreover have "parse_customer_ids s = Inr []" using blank by (rule parse_blank)
  ultimately show ?thesis by (simp add: sorted_set_def)
next
  case False
  then have "s \<noteq> []" by (auto simp: strip_def)
  with False show ?thesis by (simp add: parse_customer_ids_def)
qed

lemma sorted_set_cong: "set xs = set ys \<Longrightarrow> sorted_set xs = sorted_set ys"
proof -
  assume eq: "set xs = set ys"
  have "sorted (sorted_set xs)" "distinct (sorted_set xs)" "sorted (sorted_set ys)"
    "distinct (sorted_set ys)"
    by (simp_all add: sorted_sorted_set distinct_sorted_set)
  moreover have "set (sorted_set xs) = set (sorted_set ys)" using eq by (simp add: set_sorted_set)
  ultimately show ?thesis by (intro sorted_distinct_set_unique)
qed

lemma parse_parts_comma:
  "parse_parts (split_on CHR '','' (s1 @ '','' @ s2)) [] =
      (case parse_parts (split_on CHR '','' s1) [] of Inl e \<Rightarrow> Inl e
       | Inr ids1 \<Rightarrow> (case parse_parts (split_on CHR '','' s2) [] of Inl e \<Rightarrow> Inl e | Inr ids2 \<Rightarrow> Inr (ids1 @ ids2)))"
proof -
  let ?p1 = "parse_parts (split_on CHR '','' s1) []"
  let ?p2 = "parse_parts (split_on CHR '','' s2) []"
  have "split_on CHR '','' (s1 @ '','' @ s2) = split_on CHR '','' s1 @ split_on CHR '','' s2"
    using split_on_sep_append [of "CHR '',''" s1 s2] by simp
  then have "parse_parts (split_on CHR '','' (s1 @ '','' @ s2)) [] =
          parse_parts (split_on CHR '','' s1 @ split_on CHR '','' s2) []"
    by (rule arg_cong)
  also have "\<dots> = (case ?p1 of Inl e \<Rightarrow> Inl e
                        | Inr ids1 \<Rightarrow> parse_parts (split_on CHR '','' s2) ids1)"
    by (rule parse_parts_append)
  also have "\<dots> = (case ?p1 of Inl e \<Rightarrow> Inl e
       | Inr ids1 \<Rightarrow> (case ?p2 of Inl e \<Rightarrow> Inl e | Inr ids2 \<Rightarrow> Inr (ids1 @ ids2)))"
  proof (cases ?p1)
    case (Inl e)
    then show ?thesis by (simp only: sum.case)
  next
    case (Inr ids1)
    have "parse_parts (split_on CHR '','' s2) ids1 =
       (case ?p2 of Inl e \<Rightarrow> Inl e | Inr ids2 \<Rightarrow> Inr (ids1 @ ids2))"
      by (rule parse_parts_acc)
    with Inr show ?thesis by (simp only: sum.case)
  qed
  finally show ?thesis .
qed

lemma sorted_set_append: "sorted_set (sorted_set ids1 @ sorted_set ids2) = sorted_set (ids1 @ ids2)"
  by (rule sorted_set_cong) (simp add: set_sorted_set)

lemma parse_comma:
  "parse_customer_ids (s1 @ '','' @ s2) =
     (case parse_customer_ids s1 of
        Inl e \<Rightarrow> Inl e
      | Inr ids1 \<Rightarrow>
          (case parse_customer_ids s2 of
             Inl e \<Rightarrow> Inl e
           | Inr ids2 \<Rightarrow> Inr (sorted_set (ids1 @ ids2))))"
proof -
  let ?p1 = "parse_parts (split_on CHR '','' s1) []"
  let ?p2 = "parse_parts (split_on CHR '','' s2) []"
  have a: "parse_customer_ids (s1 @ '','' @ s2) =
      (case parse_parts (split_on CHR '','' (s1 @ '','' @ s2)) [] of
         Inl e \<Rightarrow> Inl e | Inr ids \<Rightarrow> Inr (sorted_set ids))"
    by (rule parse_as_parts)
  have b: "parse_customer_ids s1 = (case ?p1 of Inl e \<Rightarrow> Inl e | Inr ids \<Rightarrow> Inr (sorted_set ids))"
    by (rule parse_as_parts)
  have c: "parse_customer_ids s2 = (case ?p2 of Inl e \<Rightarrow> Inl e | Inr ids \<Rightarrow> Inr (sorted_set ids))"
    by (rule parse_as_parts)
  show ?thesis
  proof (cases ?p1)
    case (Inl e)
    from Inl have w: "parse_parts (split_on CHR '','' (s1 @ '','' @ s2)) [] = Inl e"
      by (simp only: parse_parts_comma sum.case)
    from Inl have b': "parse_customer_ids s1 = Inl e" by (simp only: b sum.case)
    from w have a': "parse_customer_ids (s1 @ '','' @ s2) = Inl e" by (simp only: a sum.case)
    show ?thesis unfolding a' b' by simp
  next
    case i1: (Inr ids1)
    from i1 have b': "parse_customer_ids s1 = Inr (sorted_set ids1)" by (simp only: b sum.case)
    show ?thesis
    proof (cases ?p2)
      case (Inl e)
      with i1 have w: "parse_parts (split_on CHR '','' (s1 @ '','' @ s2)) [] = Inl e"
        by (simp only: parse_parts_comma sum.case)
      from Inl have c': "parse_customer_ids s2 = Inl e" by (simp only: c sum.case)
      from w have a': "parse_customer_ids (s1 @ '','' @ s2) = Inl e" by (simp only: a sum.case)
      show ?thesis unfolding a' b' c' by simp
    next
      case (Inr ids2)
      with i1 have w: "parse_parts (split_on CHR '','' (s1 @ '','' @ s2)) [] = Inr (ids1 @ ids2)"
        by (simp only: parse_parts_comma sum.case)
      from Inr have c': "parse_customer_ids s2 = Inr (sorted_set ids2)" by (simp only: c sum.case)
      from w have a': "parse_customer_ids (s1 @ '','' @ s2) = Inr (sorted_set (ids1 @ ids2))"
        by (simp only: a sum.case)
      show ?thesis unfolding a' b' c' by (simp add: sorted_set_append)
    qed
  qed
qed

lemma strip_pad:
  assumes w1: "\<forall>c \<in> set w1. is_space c" and w4: "\<forall>c \<in> set w4. is_space c"
    and ne: "t \<noteq> []" and h: "\<not> is_space (hd t)" and l: "\<not> is_space (last t)"
  shows "strip (w1 @ t @ w4) = t"
proof -
  from ne h have d0: "dropWhile is_space t = t" by (cases t) simp_all
  have "dropWhile is_space (w1 @ t @ w4) = dropWhile is_space (t @ w4)"
    using w1 by (simp add: dropWhile_append2)
  also have "\<dots> = t @ w4" using ne h by (cases t) simp_all
  finally have d1: "dropWhile is_space (w1 @ t @ w4) = t @ w4" .
  from ne l have d2: "dropWhile is_space (rev t) = rev t"
    by (cases t rule: rev_cases) simp_all
  have "dropWhile is_space (rev (t @ w4)) = dropWhile is_space (rev w4 @ rev t)" by simp
  also have "\<dots> = dropWhile is_space (rev t)"
  proof (rule dropWhile_append2)
    fix x assume "x \<in> set (rev w4)"
    with w4 show "is_space x" by simp
  qed
  finally have d3: "dropWhile is_space (rev (t @ w4)) = rev t" using d2 by simp
  show ?thesis by (simp only: strip_def d1 d3 rev_rev_ident)
qed

lemma py_str_ends:
  assumes "0 \<le> i"
  shows "py_str i \<noteq> [] \<and> \<not> is_space (hd (py_str i)) \<and> \<not> is_space (last (py_str i))"
proof -
  have ne: "py_str i \<noteq> []" using assms by (simp add: py_str_def digits_not_Nil)
  then have "hd (py_str i) \<in> set (py_str i)" "last (py_str i) \<in> set (py_str i)" by simp_all
  with no_special_py_str [OF assms] ne show ?thesis by blast
qed

lemma parse_range_token:
  assumes a: "0 \<le> a" and b: "0 \<le> b"
    and w1: "\<forall>c \<in> set w1. is_space c" and w2: "\<forall>c \<in> set w2. is_space c"
    and w3: "\<forall>c \<in> set w3. is_space c" and w4: "\<forall>c \<in> set w4. is_space c"
  shows "parse_customer_ids (w1 @ py_str a @ w2 @ ''-'' @ w3 @ py_str b @ w4) =
         (if b < a then Inl (Invalid_range (py_str a @ w2 @ ''-'' @ w3 @ py_str b))
          else Inr [a..b])"
proof -
  let ?t = "py_str a @ w2 @ ''-'' @ w3 @ py_str b"
  let ?s = "w1 @ ?t @ w4"
  have dash: "\<not> is_space CHR ''-''" by (simp add: is_space_def)
  note ea = py_str_ends [OF a] and eb = py_str_ends [OF b]
  have tne: "?t \<noteq> []" using ea by simp
  have th: "hd ?t = hd (py_str a)" using ea by simp
  have tl: "last ?t = last (py_str b)" using eb by simp
  have st: "strip ?s = ?t"
    using w1 w4 tne by (rule strip_pad) (simp_all only: th tl ea eb not_False_eq_True)
  have ca: "CHR '','' \<notin> set (py_str a)" using no_special_py_str [OF a] by blast
  have cb: "CHR '','' \<notin> set (py_str b)" using no_special_py_str [OF b] by blast
  have cw: "CHR '','' \<notin> set w1" "CHR '','' \<notin> set w2" "CHR '','' \<notin> set w3"
      "CHR '','' \<notin> set w4"
    using w1 w2 w3 w4 comma_not_space by blast+
  have nocomma: "CHR '','' \<notin> set ?s"
    using ca cb cw by simp
  then have sp: "split_on CHR '','' ?s = [?s]" by (rule split_on_plain)
  have nd: "CHR ''-'' \<notin> set (py_str a @ w2)"
    using no_special_py_str [OF a] w2 dash by auto
  have sf: "split_first CHR ''-'' ?t = (py_str a @ w2, w3 @ py_str b)"
    using split_first_at [OF nd, of "w3 @ py_str b"] by simp
  have s1: "strip (py_str a @ w2) = py_str a"
    using strip_pad [of "[]" w2 "py_str a"] w2 ea by simp
  have s2: "strip (w3 @ py_str b) = py_str b"
    using strip_pad [of w3 "[]" "py_str b"] w3 eb by simp
  have ia: "py_int (py_str a) = Some a" using a by (rule py_int_py_str)
  have ib: "py_int (py_str b) = Some b" using b by (rule py_int_py_str)
  have mem: "CHR ''-'' \<in> set ?t" by simp
  have parts: "parse_parts [?s] [] =
        (if b < a then Inl (Invalid_range ?t) else Inr [a..b])"
    using tne mem
    by (simp only: parse_parts.simps Let_def st sf prod.case s1 s2 ia ib option.case
          if_True if_False append_Nil)
  have fixed: "sorted_set [a..b] = [a..b]"
    by (rule sorted_set_fixed) simp_all
  have "parse_customer_ids ?s =
      (case parse_parts [?s] [] of Inl e \<Rightarrow> Inl e | Inr ids \<Rightarrow> Inr (sorted_set ids))"
    using parse_as_parts [of ?s] by (simp only: sp)
  then have "parse_customer_ids ?s =
         (if b < a then Inl (Invalid_range ?t) else Inr [a..b])"
    by (simp only: parts fixed sum.case if_distrib [of "\<lambda>r. case_sum Inl (\<lambda>ids. Inr (sorted_set ids)) r"])
  then show ?thesis by simp
qed

lemma parse_id_token:
  assumes n: "0 \<le> n" and w1: "\<forall>c \<in> set w1. is_space c" and w4: "\<forall>c \<in> set w4. is_space c"
  shows "parse_customer_ids (w1 @ py_str n @ w4) = Inr [n]"
proof -
  let ?s = "w1 @ py_str n @ w4"
  note e = py_str_ends [OF n]
  from e have ne: "py_str n \<noteq> []" and h: "\<not> is_space (hd (py_str n))"
    and l: "\<not> is_space (last (py_str n))" by simp_all
  have st: "strip ?s = py_str n" using w1 w4 ne h l by (rule strip_pad)
  have cn: "CHR '','' \<notin> set (py_str n)" using no_special_py_str [OF n] by blast
  have cw: "CHR '','' \<notin> set w1" "CHR '','' \<notin> set w4"
    using w1 w4 comma_not_space by blast+
  have "CHR '','' \<notin> set ?s" using cn cw by simp
  then have sp: "split_on CHR '','' ?s = [?s]" by (rule split_on_plain)
  have nd: "CHR ''-'' \<notin> set (py_str n)" using no_special_py_str [OF n] by blast
  have i: "py_int (py_str n) = Some n" using n by (rule py_int_py_str)
  have parts: "parse_parts [?s] [] = Inr [n]"
    using ne nd by (simp add: st i)
  have "parse_customer_ids ?s =
      (case parse_parts [?s] [] of Inl e \<Rightarrow> Inl e | Inr ids \<Rightarrow> Inr (sorted_set ids))"
    using parse_as_parts [of ?s] by (simp only: sp)
  then have "parse_customer_ids ?s = Inr (sorted_set [n])"
    by (simp only: parts sum.case)
  then show ?thesis by (simp add: sorted_set_def)
qed

text \<open>
  Claim C7. \<open>parse_customer_ids\<close> maps the empty string and every string of white
  space only to success with no ids, and \<open>"3-5"\<close> to \<open>[3, 4, 5]\<close>. It fails on the
  reversed range \<open>"5-3"\<close> with the message \<open>Invalid range 5-3\<close>, and on every
  reversed range: for non-negative \<open>a\<close> and \<open>b\<close> with \<open>b < a\<close>, the token \<open>a-b\<close>,
  with white space around it or around its dash, fails with \<open>Invalid_range\<close> of the
  stripped token, and the message is \<open>Invalid range\<close> followed by that token. With
  \<open>a \<le> b\<close> the same token parses to \<open>[a..b]\<close> (to \<open>[a]\<close> when \<open>a = b\<close>), and a single
  id \<open>n\<close> parses to \<open>[n]\<close>. A comma composes: the first failing side gives the error
  of \<open>s1,s2\<close>, and when both sides parse the result is the sorted list without
  duplicates of the ids of both, so a reversed range anywhere in a list fails and the
  ids returned are those written. Every successful result is sorted ascending without
  duplicates.
\<close>

theorem parse_customer_ids_contract:
  "parse_customer_ids [] = Inr []
   \<and> (\<forall>s. (\<forall>c \<in> set s. is_space c) \<longrightarrow> parse_customer_ids s = Inr [])
   \<and> parse_customer_ids ''3-5'' = Inr [3, 4, 5]
   \<and> parse_customer_ids ''5-3'' = Inl (Invalid_range ''5-3'')
   \<and> error_message exc_text (Invalid_range ''5-3'') = ''Invalid range 5-3''
   \<and> (\<forall>part. error_message exc_text (Invalid_range part) = ''Invalid range '' @ part)
   \<and> (\<forall>a b w1 w2 w3 w4.
         0 \<le> b \<and> b < a \<and> (\<forall>c \<in> set (w1 @ w2 @ w3 @ w4). is_space c) \<longrightarrow>
         parse_customer_ids (w1 @ py_str a @ w2 @ ''-'' @ w3 @ py_str b @ w4) =
           Inl (Invalid_range (py_str a @ w2 @ ''-'' @ w3 @ py_str b)))
   \<and> (\<forall>a b w1 w2 w3 w4.
         0 \<le> a \<and> a \<le> b \<and> (\<forall>c \<in> set (w1 @ w2 @ w3 @ w4). is_space c) \<longrightarrow>
         parse_customer_ids (w1 @ py_str a @ w2 @ ''-'' @ w3 @ py_str b @ w4) = Inr [a..b])
   \<and> (\<forall>n w1 w2.
         0 \<le> n \<and> (\<forall>c \<in> set (w1 @ w2). is_space c) \<longrightarrow>
         parse_customer_ids (w1 @ py_str n @ w2) = Inr [n])
   \<and> (\<forall>s1 s2.
         parse_customer_ids (s1 @ '','' @ s2) =
           (case parse_customer_ids s1 of
              Inl e \<Rightarrow> Inl e
            | Inr ids1 \<Rightarrow>
                (case parse_customer_ids s2 of
                   Inl e \<Rightarrow> Inl e
                 | Inr ids2 \<Rightarrow> Inr (sorted_set (ids1 @ ids2)))))
   \<and> (\<forall>ids. sorted (sorted_set ids) \<and> distinct (sorted_set ids) \<and> set (sorted_set ids) = set ids)
   \<and> (\<forall>s ids. parse_customer_ids s = Inr ids \<longrightarrow> sorted ids \<and> distinct ids)"
proof -
  have a: "parse_customer_ids [] = Inr []"
    by (simp add: parse_customer_ids_def)
  have b: "\<forall>s. (\<forall>c \<in> set s. is_space c) \<longrightarrow> parse_customer_ids s = Inr []"
    by (simp add: parse_blank)
  have c: "parse_customer_ids ''3-5'' = Inr [3, 4, 5]"
    by code_simp
  have d: "parse_customer_ids ''5-3'' = Inl (Invalid_range ''5-3'')"
    by code_simp
  have e: "error_message exc_text (Invalid_range ''5-3'') = ''Invalid range 5-3''"
    by simp
  have e': "\<forall>part. error_message exc_text (Invalid_range part) = ''Invalid range '' @ part"
    by simp
  have range: "parse_customer_ids (w1 @ py_str a @ w2 @ ''-'' @ w3 @ py_str b @ w4) =
         (if b < a then Inl (Invalid_range (py_str a @ w2 @ ''-'' @ w3 @ py_str b))
          else Inr [a..b])"
    if "0 \<le> a" "0 \<le> b" "\<forall>c \<in> set (w1 @ w2 @ w3 @ w4). is_space c" for a b w1 w2 w3 w4
  proof -
    from that(3) have "\<forall>c \<in> set w1. is_space c" "\<forall>c \<in> set w2. is_space c"
      "\<forall>c \<in> set w3. is_space c" "\<forall>c \<in> set w4. is_space c" by simp_all
    with that(1,2) show ?thesis by (rule parse_range_token)
  qed
  have f: "\<forall>a b w1 w2 w3 w4.
         0 \<le> b \<and> b < a \<and> (\<forall>c \<in> set (w1 @ w2 @ w3 @ w4). is_space c) \<longrightarrow>
         parse_customer_ids (w1 @ py_str a @ w2 @ ''-'' @ w3 @ py_str b @ w4) =
           Inl (Invalid_range (py_str a @ w2 @ ''-'' @ w3 @ py_str b))"
  proof (intro allI impI)
    fix a b :: int and w1 w2 w3 w4 :: string
    assume h: "0 \<le> b \<and> b < a \<and> (\<forall>c \<in> set (w1 @ w2 @ w3 @ w4). is_space c)"
    then have "0 \<le> a" "0 \<le> b" "\<forall>c \<in> set (w1 @ w2 @ w3 @ w4). is_space c" by simp_all
    then have "parse_customer_ids (w1 @ py_str a @ w2 @ ''-'' @ w3 @ py_str b @ w4) =
         (if b < a then Inl (Invalid_range (py_str a @ w2 @ ''-'' @ w3 @ py_str b))
          else Inr [a..b])"
      by (rule range)
    moreover from h have "b < a" by simp
    ultimately show "parse_customer_ids (w1 @ py_str a @ w2 @ ''-'' @ w3 @ py_str b @ w4) =
           Inl (Invalid_range (py_str a @ w2 @ ''-'' @ w3 @ py_str b))"
      by (simp only: if_True)
  qed
  have g: "\<forall>a b w1 w2 w3 w4.
         0 \<le> a \<and> a \<le> b \<and> (\<forall>c \<in> set (w1 @ w2 @ w3 @ w4). is_space c) \<longrightarrow>
         parse_customer_ids (w1 @ py_str a @ w2 @ ''-'' @ w3 @ py_str b @ w4) = Inr [a..b]"
  proof (intro allI impI)
    fix a b :: int and w1 w2 w3 w4 :: string
    assume h: "0 \<le> a \<and> a \<le> b \<and> (\<forall>c \<in> set (w1 @ w2 @ w3 @ w4). is_space c)"
    then have "0 \<le> a" "0 \<le> b" "\<forall>c \<in> set (w1 @ w2 @ w3 @ w4). is_space c" by simp_all
    then have "parse_customer_ids (w1 @ py_str a @ w2 @ ''-'' @ w3 @ py_str b @ w4) =
         (if b < a then Inl (Invalid_range (py_str a @ w2 @ ''-'' @ w3 @ py_str b))
          else Inr [a..b])"
      by (rule range)
    moreover from h have "\<not> b < a" by simp
    ultimately show "parse_customer_ids (w1 @ py_str a @ w2 @ ''-'' @ w3 @ py_str b @ w4) = Inr [a..b]"
      by (simp only: if_False)
  qed
  have i: "\<forall>n w1 w2.
         0 \<le> n \<and> (\<forall>c \<in> set (w1 @ w2). is_space c) \<longrightarrow>
         parse_customer_ids (w1 @ py_str n @ w2) = Inr [n]"
  proof (intro allI impI)
    fix n :: int and w1 w2 :: string
    assume h: "0 \<le> n \<and> (\<forall>c \<in> set (w1 @ w2). is_space c)"
    then have "0 \<le> n" "\<forall>c \<in> set w1. is_space c" "\<forall>c \<in> set w2. is_space c" by simp_all
    then show "parse_customer_ids (w1 @ py_str n @ w2) = Inr [n]" by (rule parse_id_token)
  qed
  have j: "\<forall>s1 s2.
         parse_customer_ids (s1 @ '','' @ s2) =
           (case parse_customer_ids s1 of
              Inl e \<Rightarrow> Inl e
            | Inr ids1 \<Rightarrow>
                (case parse_customer_ids s2 of
                   Inl e \<Rightarrow> Inl e
                 | Inr ids2 \<Rightarrow> Inr (sorted_set (ids1 @ ids2))))"
    by (intro allI) (rule parse_comma)
  have k: "\<forall>ids. sorted (sorted_set ids) \<and> distinct (sorted_set ids) \<and> set (sorted_set ids) = set ids"
    by (simp add: sorted_sorted_set distinct_sorted_set set_sorted_set)
  have l: "\<forall>s ids. parse_customer_ids s = Inr ids \<longrightarrow> sorted ids \<and> distinct ids"
    using parse_success_sorted by blast
  from a b c d e e' f g i j k l show ?thesis by (intro conjI)
qed

theorem parse_customer_ids_contract_witness:
  "parse_customer_ids [CHR 0x20, CHR 0x09, CHR 0x20] = Inr []
   \<and> '' '' @ py_str 12 @ [] @ ''-'' @ '' '' @ py_str 9 @ '' '' = '' 12- 9 ''
   \<and> parse_customer_ids ('' '' @ py_str 12 @ [] @ ''-'' @ '' '' @ py_str 9 @ '' '') =
       Inl (Invalid_range (py_str 12 @ [] @ ''-'' @ '' '' @ py_str 9))
   \<and> py_str 12 @ [] @ ''-'' @ '' '' @ py_str 9 = ''12- 9''
   \<and> parse_customer_ids ('' '' @ py_str 9 @ [] @ ''-'' @ '' '' @ py_str 12 @ '' '') = Inr [9..12]
   \<and> parse_customer_ids ([] @ py_str 4 @ [] @ ''-'' @ [] @ py_str 4 @ []) = Inr [4..4]
   \<and> parse_customer_ids ('' '' @ py_str 7 @ []) = Inr [7]
   \<and> parse_customer_ids ''7,2,5-8,2'' = Inr [2, 5, 6, 7, 8]
   \<and> sorted [2, 5, 6, 7, 8 :: int] \<and> distinct [2, 5, 6, 7, 8 :: int]"
proof -
  have blank: "\<forall>c \<in> set [CHR 0x20, CHR 0x09, CHR 0x20]. is_space c"
    by (simp add: is_space_def)
  have run: "parse_customer_ids ''7,2,5-8,2'' = Inr [2, 5, 6, 7, 8]"
    by code_simp
  have shown: "'' '' @ py_str 12 @ [] @ ''-'' @ '' '' @ py_str 9 @ '' '' = '' 12- 9 ''"
    by code_simp
  have token: "py_str 12 @ [] @ ''-'' @ '' '' @ py_str 9 = ''12- 9''"
    by code_simp
  have rev: "(0::int) \<le> 9 \<and> (9::int) < 12 \<and> (\<forall>c \<in> set ('' '' @ [] @ '' '' @ '' ''). is_space c)"
    by (simp add: is_space_def)
  have fwd: "(0::int) \<le> 9 \<and> (9::int) \<le> 12 \<and> (\<forall>c \<in> set ('' '' @ [] @ '' '' @ '' ''). is_space c)"
    by (simp add: is_space_def)
  have same: "(0::int) \<le> 4 \<and> (4::int) \<le> 4 \<and> (\<forall>c \<in> set ([] @ [] @ [] @ []). is_space c)"
    by simp
  have one: "(0::int) \<le> 7 \<and> (\<forall>c \<in> set ('' '' @ []). is_space c)"
    by (simp add: is_space_def)
  note c = parse_customer_ids_contract [of "\<lambda>lit. lit"]
  note c6 = c [THEN conjunct2, THEN conjunct2, THEN conjunct2, THEN conjunct2, THEN conjunct2,
               THEN conjunct2]
  note r1 = c [THEN conjunct2, THEN conjunct1, THEN spec, THEN mp, OF blank]
  note r2 = c6 [THEN conjunct1, THEN spec, THEN spec, THEN spec, THEN spec, THEN spec, THEN spec,
                THEN mp, OF rev]
  note r3 = c6 [THEN conjunct2, THEN conjunct1, THEN spec, THEN spec, THEN spec, THEN spec,
                THEN spec, THEN spec, THEN mp, OF fwd]
  note r4 = c6 [THEN conjunct2, THEN conjunct1, THEN spec, THEN spec, THEN spec, THEN spec,
                THEN spec, THEN spec, THEN mp, OF same]
  note r5 = c6 [THEN conjunct2, THEN conjunct2, THEN conjunct1, THEN spec, THEN spec, THEN spec,
                THEN mp, OF one]
  note r6 = c6 [THEN conjunct2, THEN conjunct2, THEN conjunct2, THEN conjunct2, THEN conjunct2,
                THEN spec, THEN spec, THEN mp, OF run]
  from r1 shown r2 token r3 r4 r5 run r6 show ?thesis
    by (intro conjI) (elim conjE, assumption)+
qed

text \<open>
  Claim C10. Empty tokens (between commas, or before the first and after the last
  comma) are skipped: parsing a string gives the same result, success or failure, as
  parsing the comma-joined list of its non-blank tokens, so such a token adds no id and
  causes no error; \<open>"1,,2,"\<close> parses to \<open>[1, 2]\<close>, as \<open>"1,2"\<close> does.
\<close>

theorem parse_skips_empty_tokens:
  "parse_customer_ids s =
     parse_customer_ids (join '','' (filter (\<lambda>p. strip p \<noteq> []) (split_on CHR '','' s)))
   \<and> parse_customer_ids ''1,,2,'' = Inr [1, 2]
   \<and> parse_customer_ids ''1,2'' = Inr [1, 2]
   \<and> parse_customer_ids '','' = Inr []"
proof -
  have "parse_customer_ids ''1,,2,'' = Inr [1, 2]"
    by code_simp
  moreover have "parse_customer_ids ''1,2'' = Inr [1, 2]"
    by code_simp
  moreover have "parse_customer_ids '','' = Inr []"
    by code_simp
  ultimately show ?thesis
    using parse_drop_blank_parts [of s] by blast
qed

text \<open>
  Claim C8. \<open>normalize_customer_ids\<close> is idempotent, and for every string that
  \<open>parse_customer_ids\<close> accepts, parsing the rendering of the parsed list (joined
  with \<open>", "\<close> as the edit form does, or with a bare comma) returns the same list.
\<close>

theorem normalize_idempotent_parse_render:
  "normalize_customer_ids (normalize_customer_ids ids) = normalize_customer_ids ids
   \<and> (\<forall>s parsed. parse_customer_ids s = Inr parsed \<longrightarrow>
         parse_customer_ids (render_customer_ids parsed) = Inr parsed
         \<and> parse_customer_ids (join '','' (map py_str parsed)) = Inr parsed)"
proof -
  have "\<forall>s parsed. parse_customer_ids s = Inr parsed \<longrightarrow>
         parse_customer_ids (render_customer_ids parsed) = Inr parsed
         \<and> parse_customer_ids (join '','' (map py_str parsed)) = Inr parsed"
    using render_parse render_plain_parse parse_nonneg parse_success_sorted by blast
  then show ?thesis using normalize_idem [of ids] by blast
qed

theorem normalize_idempotent_parse_render_witness:
  "parse_customer_ids ''5-7, 2,12'' = Inr [2, 5, 6, 7, 12]
   \<and> render_customer_ids [2, 5, 6, 7, 12] = ''2, 5, 6, 7, 12''
   \<and> parse_customer_ids (render_customer_ids [2, 5, 6, 7, 12]) = Inr [2, 5, 6, 7, 12]
   \<and> parse_customer_ids (join '','' (map py_str [2, 5, 6, 7, 12])) = Inr [2, 5, 6, 7, 12]"
proof -
  have run: "parse_customer_ids ''5-7, 2,12'' = Inr [2, 5, 6, 7, 12]"
    by code_simp
  have shown: "render_customer_ids [2, 5, 6, 7, 12] = ''2, 5, 6, 7, 12''"
    by code_simp
  from normalize_idempotent_parse_render [of "[]"] run
  have "parse_customer_ids (render_customer_ids [2, 5, 6, 7, 12]) = Inr [2, 5, 6, 7, 12]
        \<and> parse_customer_ids (join '','' (map py_str [2, 5, 6, 7, 12])) = Inr [2, 5, 6, 7, 12]"
    by blast
  with run shown show ?thesis by blast
qed

section \<open>The admin check\<close>

text \<open>
  Claim C3. Whenever the membership query raises, or returns no rows, the admin check
  returns \<open>False\<close>; it returns \<open>True\<close> only when the query returned a first row
  whose \<open>is_admin\<close> value is true.
\<close>

theorem check_admin_access_fail_closed:
  "(\<forall>e w'. execute_query (admin_query st) w = (Inl e, w') \<longrightarrow>
      check_admin_access execute_query st w = (False, w'))
   \<and> (\<forall>w'. execute_query (admin_query st) w = (Inr [], w') \<longrightarrow>
      check_admin_access execute_query st w = (False, w'))
   \<and> (fst (check_admin_access execute_query st w) \<longrightarrow>
      (\<exists>first others w'. execute_query (admin_query st) w = (Inr (first # others), w')
         \<and> truthy (dict_get first ''is_admin'')))"
  by (auto simp: check_admin_access_def split: prod.splits sum.splits list.splits)

theorem check_admin_access_fail_closed_witness:
  "query_raises (admin_query settings0) () = (Inl (Error ''warehouse unreachable''), ())
   \<and> check_admin_access query_raises settings0 () = (False, ())
   \<and> query_no_rows (admin_query settings0) () = (Inr [], ())
   \<and> check_admin_access query_no_rows settings0 () = (False, ())
   \<and> fst (check_admin_access query_is_admin settings0 ())
   \<and> (\<exists>first others w'. query_is_admin (admin_query settings0) () = (Inr (first # others), w')
         \<and> truthy (dict_get first ''is_admin''))"
proof -
  have r: "query_raises (admin_query settings0) () = (Inl (Error ''warehouse unreachable''), ())"
    by (simp add: query_raises_def)
  have n: "query_no_rows (admin_query settings0) () = (Inr [], ())"
    by (simp add: query_no_rows_def)
  have a: "fst (check_admin_access query_is_admin settings0 ())"
    by (simp add: check_admin_access_def query_is_admin_def dict_get_def)
  from check_admin_access_fail_closed [of query_raises settings0 "()"] r
  have 1: "check_admin_access query_raises settings0 () = (False, ())" by blast
  from check_admin_access_fail_closed [of query_no_rows settings0 "()"] n
  have 2: "check_admin_access query_no_rows settings0 () = (False, ())" by blast
  from check_admin_access_fail_closed [of query_is_admin settings0 "()"] a
  have 3: "\<exists>first others w'. query_is_admin (admin_query settings0) () = (Inr (first # others), w')
         \<and> truthy (dict_get first ''is_admin'')" by blast
  from r n a 1 2 3 show ?thesis by blast
qed

section \<open>The warehouse connector and the propagation executor\<close>

lemma warehouse_run_fault:
  "next_fault w = Some e \<Longrightarrow>
   warehouse_run q w = (Inl e, w\<lparr>sent := sent w @ [q], faults := tl (faults w)\<rparr>)"
  by (simp add: warehouse_run_def)

lemma warehouse_run_ok:
  "next_fault w = None \<Longrightarrow>
   warehouse_run q w =
     (Inr (fst (apply_statement q (w\<lparr>sent := sent w @ [q], faults := tl (faults w)\<rparr>))),
      snd (apply_statement q (w\<lparr>sent := sent w @ [q], faults := tl (faults w)\<rparr>)))"
  by (simp add: warehouse_run_def split: prod.splits)

lemma no_fault_next: "no_fault w \<Longrightarrow> next_fault w = None"
  by (cases "faults w") (auto simp: no_fault_def next_fault_def)

lemma no_fault_tl: "no_fault w \<Longrightarrow> list_all (\<lambda>f. f = None) (tl (faults w))"
  by (cases "faults w") (auto simp: no_fault_def)

lemma faults_apply_statement: "faults (snd (apply_statement q w)) = faults w"
  by (cases q) simp_all

lemma sent_apply_statement: "sent (snd (apply_statement q w)) = sent w"
  by (cases q) simp_all

lemma faults_warehouse_run: "faults (snd (warehouse_run q w)) = tl (faults w)"
  by (cases "next_fault w") (simp_all add: warehouse_run_ok warehouse_run_fault faults_apply_statement)

lemma sent_warehouse_run: "sent (snd (warehouse_run q w)) = sent w @ [q]"
  by (cases "next_fault w") (simp_all add: warehouse_run_ok warehouse_run_fault sent_apply_statement)

lemma no_fault_after: "no_fault w \<Longrightarrow> no_fault (snd (warehouse_run q w))"
  using no_fault_tl [of w] by (simp add: no_fault_def faults_warehouse_run)

lemma execute_update_fault:
  "next_fault w = Some e \<Longrightarrow>
   execute_update warehouse_run q w = (Inl e, w\<lparr>sent := sent w @ [q], faults := tl (faults w)\<rparr>)"
  by (simp add: execute_update_def warehouse_run_fault)

lemma execute_update_ok:
  "next_fault w = None \<Longrightarrow>
   execute_update warehouse_run q w =
     (Inr (case fst (apply_statement q (w\<lparr>sent := sent w @ [q], faults := tl (faults w)\<rparr>)) of
             None \<Rightarrow> 0 | Some n \<Rightarrow> n),
      snd (apply_statement q (w\<lparr>sent := sent w @ [q], faults := tl (faults w)\<rparr>)))"
  by (simp add: execute_update_def warehouse_run_ok)

lemma execute_update_cases:
  "(\<exists>e. next_fault w = Some e \<and> execute_update warehouse_run q w =
         (Inl e, w\<lparr>sent := sent w @ [q], faults := tl (faults w)\<rparr>))
   \<or> (next_fault w = None \<and> execute_update warehouse_run q w =
     (Inr (case fst (apply_statement q (w\<lparr>sent := sent w @ [q], faults := tl (faults w)\<rparr>)) of
             None \<Rightarrow> 0 | Some n \<Rightarrow> n),
      snd (apply_statement q (w\<lparr>sent := sent w @ [q], faults := tl (faults w)\<rparr>))))"
  by (cases "next_fault w") (simp_all add: execute_update_ok execute_update_fault)

lemma apply_loop_total:
  "fst (apply_loop conn actions executed w) = Inr xs \<Longrightarrow> xs = executed @ map sql actions"
proof (induction actions arbitrary: executed w)
  case Nil
  then show ?case by simp
next
  case (Cons a actions)
  obtain r w1 where step: "execute_update conn (Sql (sql a)) w = (r, w1)"
    by (cases "execute_update conn (Sql (sql a)) w")
  show ?case
  proof (cases r)
    case (Inl e)
    with step Cons.prems show ?thesis by simp
  next
    case (Inr n)
    with step Cons.prems
    have "fst (apply_loop conn actions (executed @ [sql a]) w1) = Inr xs" by simp
    then have "xs = (executed @ [sql a]) @ map sql actions" by (rule Cons.IH)
    then show ?thesis by simp
  qed
qed

lemma apply_loop_ok:
  "list_all (\<lambda>f. f = None) (take (length actions) (faults w)) \<Longrightarrow>
   apply_loop warehouse_run actions executed w =
     (Inr (executed @ map sql actions),
      w\<lparr>sent := sent w @ map (\<lambda>a. Sql (sql a)) actions,
         faults := drop (length actions) (faults w)\<rparr>)"
proof (induction actions arbitrary: executed w)
  case Nil
  then show ?case by simp
next
  case (Cons a actions)
  let ?w1 = "w\<lparr>sent := sent w @ [Sql (sql a)], faults := tl (faults w)\<rparr>"
  from Cons.prems have nf: "next_fault w = None"
    by (cases "faults w") (auto simp: next_fault_def)
  from Cons.prems have rest: "list_all (\<lambda>f. f = None) (take (length actions) (faults ?w1))"
    by (cases "faults w") auto
  have step: "execute_update warehouse_run (Sql (sql a)) w = (Inr 0, ?w1)"
    using nf by (simp add: execute_update_ok)
  have "apply_loop warehouse_run (a # actions) executed w =
        apply_loop warehouse_run actions (executed @ [sql a]) ?w1"
    by (simp add: step)
  also have "\<dots> = (Inr ((executed @ [sql a]) @ map sql actions),
      ?w1\<lparr>sent := sent ?w1 @ map (\<lambda>a. Sql (sql a)) actions,
         faults := drop (length actions) (faults ?w1)\<rparr>)"
    using rest by (rule Cons.IH)
  finally show ?case by (simp add: drop_Suc)
qed

lemma apply_loop_fault:
  "faults w = replicate k None @ Some e # rest \<Longrightarrow> k < length actions \<Longrightarrow>
   apply_loop warehouse_run actions executed w =
     (Inl e,
      w\<lparr>sent := sent w @ map (\<lambda>a. Sql (sql a)) (take (Suc k) actions), faults := rest\<rparr>)"
proof (induction actions arbitrary: executed w k)
  case Nil
  then show ?case by simp
next
  case (Cons a actions)
  let ?w1 = "w\<lparr>sent := sent w @ [Sql (sql a)], faults := tl (faults w)\<rparr>"
  show ?case
  proof (cases k)
    case 0
    with Cons.prems have "next_fault w = Some e" by (simp add: next_fault_def)
    then have "execute_update warehouse_run (Sql (sql a)) w = (Inl e, ?w1)"
      by (rule execute_update_fault)
    with 0 Cons.prems show ?thesis by simp
  next
    case (Suc j)
    with Cons.prems have nf: "next_fault w = None" by (simp add: next_fault_def)
    have step: "execute_update warehouse_run (Sql (sql a)) w = (Inr 0, ?w1)"
      using nf by (simp add: execute_update_ok)
    from Suc Cons.prems have f1: "faults ?w1 = replicate j None @ Some e # rest" by simp
    from Suc Cons.prems have j: "j < length actions" by simp
    have "apply_loop warehouse_run (a # actions) executed w =
          apply_loop warehouse_run actions (executed @ [sql a]) ?w1"
      by (simp add: step)
    also have "\<dots> = (Inl e,
      ?w1\<lparr>sent := sent ?w1 @ map (\<lambda>a. Sql (sql a)) (take (Suc j) actions), faults := rest\<rparr>)"
      using f1 j by (rule Cons.IH)
    finally show ?thesis using Suc by simp
  qed
qed

text \<open>
  Claim C2, as the code has it. \<open>apply_propagation\<close> has no handler around
  \<open>execute_update\<close>. If it returns a list at all, the list is every planned
  statement in plan order. On the warehouse: when none of the calls raises, every
  statement is sent once, in plan order, and all are returned; when the call for the
  action at position \<open>k\<close> is the first to raise, the exception leaves
  \<open>apply_propagation\<close>, the statements sent are those up to and including position
  \<open>k\<close>, no later action is attempted and nothing is returned.
\<close>

theorem apply_propagation_all_or_raise:
  "(\<forall>xs. fst (apply_propagation conn actions w) = Inr xs \<longrightarrow> xs = map sql actions)
   \<and> (list_all (\<lambda>f. f = None) (take (length actions) (faults v)) \<longrightarrow>
        apply_propagation warehouse_run actions v =
          (Inr (map sql actions),
           v\<lparr>sent := sent v @ map (\<lambda>a. Sql (sql a)) actions,
              faults := drop (length actions) (faults v)\<rparr>))
   \<and> (\<forall>k e rest. faults v = replicate k None @ Some e # rest \<and> k < length actions \<longrightarrow>
        apply_propagation warehouse_run actions v =
          (Inl e,
           v\<lparr>sent := sent v @ map (\<lambda>a. Sql (sql a)) (take (Suc k) actions), faults := rest\<rparr>))"
proof -
  have a: "\<forall>xs. fst (apply_propagation conn actions w) = Inr xs \<longrightarrow> xs = map sql actions"
    using apply_loop_total [of conn actions "[]" w] by (simp add: apply_propagation_def)
  have b: "list_all (\<lambda>f. f = None) (take (length actions) (faults v)) \<longrightarrow>
        apply_propagation warehouse_run actions v =
          (Inr (map sql actions),
           v\<lparr>sent := sent v @ map (\<lambda>a. Sql (sql a)) actions,
              faults := drop (length actions) (faults v)\<rparr>)"
    using apply_loop_ok [of actions v "[]"] by (simp add: apply_propagation_def)
  have c: "\<forall>k e rest. faults v = replicate k None @ Some e # rest \<and> k < length actions \<longrightarrow>
        apply_propagation warehouse_run actions v =
          (Inl e,
           v\<lparr>sent := sent v @ map (\<lambda>a. Sql (sql a)) (take (Suc k) actions), faults := rest\<rparr>)"
    using apply_loop_fault [of v _ _ _ actions "[]"] by (simp add: apply_propagation_def)
  from a b c show ?thesis by blast
qed

theorem apply_propagation_all_or_raise_witness:
  "apply_propagation warehouse_run [action1, action2] warehouse0 =
     (Inr [sql action1, sql action2],
      warehouse0\<lparr>sent := [Sql (sql action1), Sql (sql action2)]\<rparr>)
   \<and> apply_propagation warehouse_run [action1, action2]
        (warehouse0\<lparr>faults := [None, Some (Error ''permission denied'')]\<rparr>) =
     (Inl (Error ''permission denied''),
      warehouse0\<lparr>sent := [Sql (sql action1), Sql (sql action2)]\<rparr>)"
proof -
  let ?v = "warehouse0\<lparr>faults := [None, Some (Error ''permission denied'')]\<rparr>"
  have h1: "list_all (\<lambda>f. f = None) (take (length [action1, action2]) (faults warehouse0))"
    by (simp add: warehouse0_def)
  have h2: "faults ?v = replicate 1 None @ Some (Error ''permission denied'') # []
            \<and> 1 < length [action1, action2]"
    by simp
  from apply_propagation_all_or_raise [of warehouse_run "[action1, action2]" warehouse0 warehouse0] h1
  have "apply_propagation warehouse_run [action1, action2] warehouse0 =
     (Inr (map sql [action1, action2]),
      warehouse0\<lparr>sent := sent warehouse0 @ map (\<lambda>a. Sql (sql a)) [action1, action2],
         faults := drop (length [action1, action2]) (faults warehouse0)\<rparr>)"
    by blast
  then have 1: "apply_propagation warehouse_run [action1, action2] warehouse0 =
     (Inr [sql action1, sql action2],
      warehouse0\<lparr>sent := [Sql (sql action1), Sql (sql action2)]\<rparr>)"
    by (simp add: warehouse0_def)
  from apply_propagation_all_or_raise [of warehouse_run "[action1, action2]" warehouse0 ?v] h2
  have "apply_propagation warehouse_run [action1, action2] ?v =
     (Inl (Error ''permission denied''),
      ?v\<lparr>sent := sent ?v @ map (\<lambda>a. Sql (sql a)) (take (Suc 1) [action1, action2]),
          faults := []\<rparr>)"
    by blast
  then have 2: "apply_propagation warehouse_run [action1, action2] ?v =
     (Inl (Error ''permission denied''),
      warehouse0\<lparr>sent := [Sql (sql action1), Sql (sql action2)]\<rparr>)"
    by (simp add: warehouse0_def)
  from 1 2 show ?thesis by blast
qed

text \<open>
  Claim C2 as stated fails: with two planned actions of which the first raises and the
  second would succeed, the call ends with the exception, the second statement is never
  sent, and no list of successes is returned.
\<close>

theorem apply_propagation_stops_at_failure:
  "apply_propagation warehouse_run [action1, action2]
     (warehouse0\<lparr>faults := [Some (Error ''permission denied''), None]\<rparr>) =
   (Inl (Error ''permission denied''),
    warehouse0\<lparr>sent := [Sql (sql action1)], faults := [None]\<rparr>)"
  by (simp add: apply_propagation_def execute_update_def warehouse_run_def next_fault_def
        warehouse0_def)

section \<open>The access rule store\<close>

text \<open>
  \<open>add_access_rule\<close> has no handler: an exception of the \<open>INSERT\<close> leaves the function
  as it is, and so does an exception of the audit \<open>INSERT\<close> that follows a successful
  one; when both statements run it returns \<open>True\<close>.
\<close>

lemma add_access_rule_outcomes:
  "(\<forall>e w1. conn (insert_query s g (normalize_customer_ids ids) t eff exp n) w = (Inl e, w1) \<longrightarrow>
      add_access_rule conn s g ids t eff exp n w = (Inl e, w1))
   \<and> (\<forall>rc w1 e w2.
        conn (insert_query s g (normalize_customer_ids ids) t eff exp n) w = (Inr rc, w1)
        \<and> conn (audit_query s ''INSERT'' ''GROUP_ACCESS'' g None
                  (Some (''customer_ids='' @ py_list_str (normalize_customer_ids ids) @
                         '', access_type='' @ t)) n) w1 = (Inl e, w2) \<longrightarrow>
      add_access_rule conn s g ids t eff exp n w = (Inl e, w2))
   \<and> (\<forall>rc w1 rc' w2.
        conn (insert_query s g (normalize_customer_ids ids) t eff exp n) w = (Inr rc, w1)
        \<and> conn (audit_query s ''INSERT'' ''GROUP_ACCESS'' g None
                  (Some (''customer_ids='' @ py_list_str (normalize_customer_ids ids) @
                         '', access_type='' @ t)) n) w1 = (Inr rc', w2) \<longrightarrow>
      add_access_rule conn s g ids t eff exp n w = (Inr True, w2))
   \<and> fst (add_access_rule conn s g ids t eff exp n w) \<noteq> Inr False"
  by (auto simp: add_access_rule_def log_action_def execute_update_def Let_def
           split: prod.splits sum.splits)

text \<open>
  Claim C4 on the code. The claim does not hold of \<open>add_access_rule\<close>. When the
  connection is lost at the \<open>INSERT\<close>, the exception reaches the caller; when the audit
  \<open>INSERT\<close> fails, the exception reaches the caller after the rule has been stored,
  with no audit record. No input and no connector make it return \<open>False\<close>, the value
  on which the form that calls it reports \<open>Failed to add access rule.\<close> Under the same
  two faults \<open>apply_table_tag\<close>, which makes the same two calls, returns
  \<open>(False, message)\<close>.
\<close>

theorem add_access_rule_lets_fault_through:
  "add_access_rule warehouse_run session0 ''analysts'' [3, 1] ''INCLUDE'' 50 None None
     (warehouse0\<lparr>faults := [Some (Error ''connection lost'')]\<rparr>) =
   (Inl (Error ''connection lost''),
    warehouse0\<lparr>sent := [insert_query session0 ''analysts'' [1, 3] ''INCLUDE'' 50 None None]\<rparr>)
   \<and> fst (add_access_rule warehouse_run session0 ''analysts'' [3, 1] ''INCLUDE'' 50 None None
            (warehouse0\<lparr>faults := [None, Some (Error ''audit table locked'')]\<rparr>)) =
       Inl (Error ''audit table locked'')
   \<and> map group_name
        (access_rows (snd (add_access_rule warehouse_run session0 ''analysts'' [3, 1] ''INCLUDE''
            50 None None (warehouse0\<lparr>faults := [None, Some (Error ''audit table locked'')]\<rparr>)))) =
       [''analysts'']
   \<and> audit_rows (snd (add_access_rule warehouse_run session0 ''analysts'' [3, 1] ''INCLUDE''
            50 None None (warehouse0\<lparr>faults := [None, Some (Error ''audit table locked'')]\<rparr>))) = []
   \<and> apply_table_tag exc_str warehouse_run session0 ''main'' ''sales'' ''orders'' ''category'' ''pii''
        (warehouse0\<lparr>faults := [Some (Error ''connection lost'')]\<rparr>) =
       ((False, ''Error applying tag: '' @ exc_str (Error ''connection lost'')),
        warehouse0\<lparr>sent := [Sql (tag_sql ''main.sales.orders'' ''category'' ''pii'')]\<rparr>)
   \<and> fst (apply_table_tag exc_str warehouse_run session0 ''main'' ''sales'' ''orders'' ''category''
            ''pii'' (warehouse0\<lparr>faults := [None, Some (Error ''audit table locked'')]\<rparr>)) =
       (False, ''Error applying tag: '' @ exc_str (Error ''audit table locked''))
   \<and> fst (apply_table_tag exc_str warehouse_run session0 ''main'' ''sales'' ''orders'' ''category''
            ''pii'' warehouse0) = (True, ''Tag applied successfully.'')
   \<and> fst (add_access_rule warehouse_run session0 ''analysts'' [3, 1] ''INCLUDE'' 50 None None
            warehouse0) = Inr True
   \<and> fst (add_access_rule conn s g ids t eff exp n w) \<noteq> Inr False"
proof -
  let ?lost = "warehouse0\<lparr>faults := [Some (Error ''connection lost'')]\<rparr>"
  let ?locked = "warehouse0\<lparr>faults := [None, Some (Error ''audit table locked'')]\<rparr>"
  have ident: "validate_identifier ''category''"
    by code_simp
  have a1: "add_access_rule warehouse_run session0 ''analysts'' [3, 1] ''INCLUDE'' 50 None None ?lost =
      (Inl (Error ''connection lost''),
       warehouse0\<lparr>sent := [insert_query session0 ''analysts'' [1, 3] ''INCLUDE'' 50 None None]\<rparr>)"
    by code_simp
  have a2: "fst (add_access_rule warehouse_run session0 ''analysts'' [3, 1] ''INCLUDE'' 50 None None
            ?locked) = Inl (Error ''audit table locked'')"
    by code_simp
  have a3: "map group_name
        (access_rows (snd (add_access_rule warehouse_run session0 ''analysts'' [3, 1] ''INCLUDE''
            50 None None ?locked))) = [''analysts'']"
    by code_simp
  have a4: "audit_rows (snd (add_access_rule warehouse_run session0 ''analysts'' [3, 1] ''INCLUDE''
            50 None None ?locked)) = []"
    by code_simp
  have t1: "apply_table_tag exc_str warehouse_run session0 ''main'' ''sales'' ''orders'' ''category''
        ''pii'' ?lost =
       ((False, ''Error applying tag: '' @ exc_str (Error ''connection lost'')),
        warehouse0\<lparr>sent := [Sql (tag_sql ''main.sales.orders'' ''category'' ''pii'')]\<rparr>)"
    using ident
    by (simp add: apply_table_tag_def Let_def execute_update_def warehouse_run_def next_fault_def
          warehouse0_def)
  have t2: "fst (apply_table_tag exc_str warehouse_run session0 ''main'' ''sales'' ''orders''
            ''category'' ''pii'' ?locked) =
       (False, ''Error applying tag: '' @ exc_str (Error ''audit table locked''))"
    using ident
    by (simp add: apply_table_tag_def Let_def log_action_def execute_update_def warehouse_run_def
          next_fault_def warehouse0_def)
  have t3: "fst (apply_table_tag exc_str warehouse_run session0 ''main'' ''sales'' ''orders''
            ''category'' ''pii'' warehouse0) = (True, ''Tag applied successfully.'')"
    using ident
    by (simp add: apply_table_tag_def Let_def log_action_def execute_update_def warehouse_run_def
          next_fault_def warehouse0_def audit_query_def)
  have a5: "fst (add_access_rule warehouse_run session0 ''analysts'' [3, 1] ''INCLUDE'' 50 None None
            warehouse0) = Inr True"
    by code_simp
  have never: "fst (add_access_rule conn s g ids t eff exp n w) \<noteq> Inr False"
    by (auto simp: add_access_rule_def log_action_def execute_update_def Let_def
             split: prod.splits sum.splits)
  from a1 a2 a3 a4 t1 t2 t3 a5 never show ?thesis by (intro conjI)
qed

lemma list_ex_filter: "list_ex P xs \<longleftrightarrow> filter P xs \<noteq> []"
  by (induction xs) auto

lemma filter_none: "\<not> list_ex P xs \<Longrightarrow> filter (\<lambda>x. \<not> P x) xs = xs"
  by (induction xs) auto

lemma length_filter_some: "list_ex P xs \<Longrightarrow> length (filter (\<lambda>x. \<not> P x) xs) < length xs"
  by (induction xs) (auto simp: less_Suc_eq_le)

lemma next_fault_faults: "faults a = faults b \<Longrightarrow> next_fault a = next_fault b"
  by (simp add: next_fault_def)

lemma log_action_fault:
  "next_fault w = Some e \<Longrightarrow>
   log_action warehouse_run s a ot on ov nv n w =
     (Inl e, w\<lparr>sent := sent w @ [audit_query s a ot on ov nv n], faults := tl (faults w)\<rparr>)"
  by (simp add: log_action_def execute_update_fault)

lemma log_action_ok:
  "next_fault w = None \<Longrightarrow>
   log_action warehouse_run s a ot on ov nv n w =
     (Inr (),
      w\<lparr>sent := sent w @ [audit_query s a ot on ov nv n], faults := tl (faults w),
         audit_rows := audit_rows w @
           [\<lparr>user = get_current_user_email (email s), action_type = a, object_type = ot,
             object_name = on, old_value = ov, new_value = nv, audit_notes = n\<rparr>]\<rparr>)"
  by (simp add: log_action_def execute_update_ok audit_query_def)

lemma execute_delete_ok:
  "next_fault w = None \<Longrightarrow>
   execute_update warehouse_run (delete_query s rid) w =
     (Inr (int (length (filter (\<lambda>r. row_id r = rid \<and> expired_by (today w) r) (access_rows w)))),
      w\<lparr>sent := sent w @ [delete_query s rid], faults := tl (faults w),
         access_rows := filter (\<lambda>r. \<not> (row_id r = rid \<and> expired_by (today w) r)) (access_rows w)\<rparr>)"
  by (simp add: execute_update_ok delete_query_def)

lemma delete_first_fault:
  "next_fault w = Some e \<Longrightarrow>
   delete_access_rule warehouse_run s rid w =
     (Inl e, w\<lparr>sent := sent w @ [delete_query s rid], faults := tl (faults w)\<rparr>)"
  by (simp add: delete_access_rule_def execute_update_fault)

lemma delete_nothing:
  assumes "next_fault w = None" "\<not> deletable w rid"
  shows "delete_access_rule warehouse_run s rid w =
           (Inr False, w\<lparr>sent := sent w @ [delete_query s rid], faults := tl (faults w)\<rparr>)"
proof -
  from assms(2) have "filter (\<lambda>r. row_id r = rid \<and> expired_by (today w) r) (access_rows w) = []"
    by (simp add: deletable_def list_ex_filter)
  moreover from assms(2)
  have "filter (\<lambda>r. \<not> (row_id r = rid \<and> expired_by (today w) r)) (access_rows w) = access_rows w"
    unfolding deletable_def by (rule filter_none)
  ultimately have "execute_update warehouse_run (delete_query s rid) w =
     (Inr 0, w\<lparr>sent := sent w @ [delete_query s rid], faults := tl (faults w)\<rparr>)"
    using execute_delete_ok [OF assms(1), of s rid] by simp
  then show ?thesis
    by (simp add: delete_access_rule_def)
qed

lemma delete_audit_fault:
  assumes "next_fault w = None" "deletable w rid"
    and "next_fault (w\<lparr>faults := tl (faults w)\<rparr>) = Some e"
  shows "delete_access_rule warehouse_run s rid w =
     (Inl e,
      w\<lparr>sent := sent w @ [delete_query s rid, audit_query s ''DELETE'' ''GROUP_ACCESS'' (py_str rid)
                 None (Some ''deleted'') (Some ''Deleted via UI after expiration'')],
         faults := tl (tl (faults w)),
         access_rows := filter (\<lambda>r. \<not> (row_id r = rid \<and> expired_by (today w) r)) (access_rows w)\<rparr>)"
proof -
  let ?n = "int (length (filter (\<lambda>r. row_id r = rid \<and> expired_by (today w) r) (access_rows w)))"
  let ?w2 = "w\<lparr>sent := sent w @ [delete_query s rid], faults := tl (faults w),
         access_rows := filter (\<lambda>r. \<not> (row_id r = rid \<and> expired_by (today w) r)) (access_rows w)\<rparr>"
  have e1: "execute_update warehouse_run (delete_query s rid) w = (Inr ?n, ?w2)"
    using assms(1) by (rule execute_delete_ok)
  from assms(2) have pos: "?n \<noteq> 0"
    by (simp add: deletable_def list_ex_filter)
  have "next_fault ?w2 = next_fault (w\<lparr>faults := tl (faults w)\<rparr>)"
    by (rule next_fault_faults) simp
  with assms(3) have nf2: "next_fault ?w2 = Some e" by simp
  have e2: "log_action warehouse_run s ''DELETE'' ''GROUP_ACCESS'' (py_str rid) None (Some ''deleted'')
              (Some ''Deleted via UI after expiration'') ?w2 =
            (Inl e, ?w2\<lparr>sent := sent ?w2 @ [audit_query s ''DELETE'' ''GROUP_ACCESS'' (py_str rid)
                 None (Some ''deleted'') (Some ''Deleted via UI after expiration'')],
               faults := tl (faults ?w2)\<rparr>)"
    using nf2 by (rule log_action_fault)
  have "delete_access_rule warehouse_run s rid w =
        (Inl e, ?w2\<lparr>sent := sent ?w2 @ [audit_query s ''DELETE'' ''GROUP_ACCESS'' (py_str rid)
                 None (Some ''deleted'') (Some ''Deleted via UI after expiration'')],
               faults := tl (faults ?w2)\<rparr>)"
    unfolding delete_access_rule_def Let_def
    using pos by (simp only: e1 e2 prod.case sum.case if_True not_False_eq_True)
  then show ?thesis by simp
qed

lemma delete_done:
  assumes "next_fault w = None" "deletable w rid"
    and "next_fault (w\<lparr>faults := tl (faults w)\<rparr>) = None"
  shows "delete_access_rule warehouse_run s rid w =
     (Inr True,
      w\<lparr>sent := sent w @ [delete_query s rid, audit_query s ''DELETE'' ''GROUP_ACCESS'' (py_str rid)
                 None (Some ''deleted'') (Some ''Deleted via UI after expiration'')],
         faults := tl (tl (faults w)),
         access_rows := filter (\<lambda>r. \<not> (row_id r = rid \<and> expired_by (today w) r)) (access_rows w),
         audit_rows := audit_rows w @ [delete_entry s rid]\<rparr>)"
proof -
  let ?n = "int (length (filter (\<lambda>r. row_id r = rid \<and> expired_by (today w) r) (access_rows w)))"
  let ?w2 = "w\<lparr>sent := sent w @ [delete_query s rid], faults := tl (faults w),
         access_rows := filter (\<lambda>r. \<not> (row_id r = rid \<and> expired_by (today w) r)) (access_rows w)\<rparr>"
  let ?w3 = "?w2\<lparr>sent := sent ?w2 @ [audit_query s ''DELETE'' ''GROUP_ACCESS'' (py_str rid)
                 None (Some ''deleted'') (Some ''Deleted via UI after expiration'')],
               faults := tl (faults ?w2),
               audit_rows := audit_rows ?w2 @
                 [\<lparr>user = get_current_user_email (email s), action_type = ''DELETE'',
                   object_type = ''GROUP_ACCESS'', object_name = py_str rid, old_value = None,
                   new_value = Some ''deleted'',
                   audit_notes = Some ''Deleted via UI after expiration''\<rparr>]\<rparr>"
  have e1: "execute_update warehouse_run (delete_query s rid) w = (Inr ?n, ?w2)"
    using assms(1) by (rule execute_delete_ok)
  from assms(2) have pos: "?n \<noteq> 0" and gt: "0 < ?n"
    by (simp_all add: deletable_def list_ex_filter)
  have "next_fault ?w2 = next_fault (w\<lparr>faults := tl (faults w)\<rparr>)"
    by (rule next_fault_faults) simp
  with assms(3) have nf2: "next_fault ?w2 = None" by simp
  have e2: "log_action warehouse_run s ''DELETE'' ''GROUP_ACCESS'' (py_str rid) None (Some ''deleted'')
              (Some ''Deleted via UI after expiration'') ?w2 = (Inr (), ?w3)"
    using nf2 by (rule log_action_ok)
  have "delete_access_rule warehouse_run s rid w = (Inr True, ?w3)"
    unfolding delete_access_rule_def Let_def
    using pos gt by (simp only: e1 e2 prod.case sum.case if_True not_False_eq_True)
  then show ?thesis by (simp add: delete_entry_def)
qed

lemma no_fault_second: "no_fault w \<Longrightarrow> next_fault (w\<lparr>faults := tl (faults w)\<rparr>) = None"
  using no_fault_tl [of w] by (cases "tl (faults w)") (auto simp: next_fault_def)

lemma delete_cases:
  "(\<exists>e. next_fault w = Some e \<and>
        delete_access_rule warehouse_run s rid w =
          (Inl e, w\<lparr>sent := sent w @ [delete_query s rid], faults := tl (faults w)\<rparr>))
   \<or> (next_fault w = None \<and> \<not> deletable w rid \<and>
        delete_access_rule warehouse_run s rid w =
          (Inr False, w\<lparr>sent := sent w @ [delete_query s rid], faults := tl (faults w)\<rparr>))
   \<or> (\<exists>e. next_fault w = None \<and> deletable w rid \<and>
        next_fault (w\<lparr>faults := tl (faults w)\<rparr>) = Some e \<and>
        delete_access_rule warehouse_run s rid w =
          (Inl e,
           w\<lparr>sent := sent w @ [delete_query s rid, audit_query s ''DELETE'' ''GROUP_ACCESS''
                      (py_str rid) None (Some ''deleted'') (Some ''Deleted via UI after expiration'')],
              faults := tl (tl (faults w)),
              access_rows :=
                filter (\<lambda>r. \<not> (row_id r = rid \<and> expired_by (today w) r)) (access_rows w)\<rparr>))
   \<or> (next_fault w = None \<and> deletable w rid \<and>
        next_fault (w\<lparr>faults := tl (faults w)\<rparr>) = None \<and>
        delete_access_rule warehouse_run s rid w =
          (Inr True,
           w\<lparr>sent := sent w @ [delete_query s rid, audit_query s ''DELETE'' ''GROUP_ACCESS''
                      (py_str rid) None (Some ''deleted'') (Some ''Deleted via UI after expiration'')],
              faults := tl (tl (faults w)),
              access_rows :=
                filter (\<lambda>r. \<not> (row_id r = rid \<and> expired_by (today w) r)) (access_rows w),
              audit_rows := audit_rows w @ [delete_entry s rid]\<rparr>))"
proof (cases "next_fault w")
  case (Some e)
  then show ?thesis using delete_first_fault [of w e s rid] by simp
next
  case None
  show ?thesis
  proof (cases "deletable w rid")
    case False
    with None show ?thesis using delete_nothing [of w rid s] by simp
  next
    case True
    show ?thesis
    proof (cases "next_fault (w\<lparr>faults := tl (faults w)\<rparr>)")
      case nf: None
      with None True show ?thesis using delete_done [of w rid s] by simp
    next
      case (Some e)
      with None True show ?thesis using delete_audit_fault [of w rid e s] by simp
    qed
  qed
qed

text \<open>
  Claim C5, as the code has it. \<open>delete_access_rule\<close> returns \<open>True\<close> only if the rule
  exists with an expiration date that is not \<open>NULL\<close> and not after the current date.
  If that precondition fails, the call does not succeed (it returns \<open>False\<close> unless the
  statement itself raises), the access table is unchanged and no audit record is
  written. An audit record is written only if a row was removed, and it is the
  \<open>DELETE\<close> record. When no call raises, the result is exactly whether the rule was
  deletable, and exactly the deletable rows with that id are removed. Whenever the
  call returns, with \<open>True\<close> or \<open>False\<close>, the \<open>DELETE\<close> record is written exactly when a
  row was removed.
\<close>

theorem delete_access_rule_contract:
  "(fst (delete_access_rule warehouse_run s rid w) = Inr True \<longrightarrow> deletable w rid)
   \<and> (\<not> deletable w rid \<longrightarrow>
        fst (delete_access_rule warehouse_run s rid w) \<noteq> Inr True
        \<and> access_rows (snd (delete_access_rule warehouse_run s rid w)) = access_rows w
        \<and> audit_rows (snd (delete_access_rule warehouse_run s rid w)) = audit_rows w)
   \<and> (\<not> deletable w rid \<and> next_fault w = None \<longrightarrow>
        fst (delete_access_rule warehouse_run s rid w) = Inr False)
   \<and> (audit_rows (snd (delete_access_rule warehouse_run s rid w)) \<noteq> audit_rows w \<longrightarrow>
        length (access_rows (snd (delete_access_rule warehouse_run s rid w))) < length (access_rows w)
        \<and> audit_rows (snd (delete_access_rule warehouse_run s rid w)) =
            audit_rows w @ [delete_entry s rid])
   \<and> (no_fault w \<longrightarrow>
        fst (delete_access_rule warehouse_run s rid w) = Inr (deletable w rid)
        \<and> access_rows (snd (delete_access_rule warehouse_run s rid w)) =
            filter (\<lambda>r. \<not> (row_id r = rid \<and> expired_by (today w) r)) (access_rows w)
        \<and> audit_rows (snd (delete_access_rule warehouse_run s rid w)) =
            (if deletable w rid then audit_rows w @ [delete_entry s rid] else audit_rows w))
   \<and> (\<forall>ok. fst (delete_access_rule warehouse_run s rid w) = Inr ok \<longrightarrow>
        ok = deletable w rid
        \<and> access_rows (snd (delete_access_rule warehouse_run s rid w)) =
            filter (\<lambda>r. \<not> (row_id r = rid \<and> expired_by (today w) r)) (access_rows w)
        \<and> audit_rows (snd (delete_access_rule warehouse_run s rid w)) =
            (if ok then audit_rows w @ [delete_entry s rid] else audit_rows w)
        \<and> ((audit_rows (snd (delete_access_rule warehouse_run s rid w)) \<noteq> audit_rows w) =
            (length (access_rows (snd (delete_access_rule warehouse_run s rid w)))
               < length (access_rows w))))"
proof -
  let ?d = "delete_access_rule warehouse_run s rid w"
  let ?kept = "filter (\<lambda>r. \<not> (row_id r = rid \<and> expired_by (today w) r)) (access_rows w)"
  have shorter: "deletable w rid \<Longrightarrow> length ?kept < length (access_rows w)"
    unfolding deletable_def by (rule length_filter_some)
  have same: "\<not> deletable w rid \<Longrightarrow> ?kept = access_rows w"
    unfolding deletable_def by (rule filter_none)
  have nf: "no_fault w \<Longrightarrow> next_fault w = None \<and> next_fault (w\<lparr>faults := tl (faults w)\<rparr>) = None"
    by (simp add: no_fault_next no_fault_second)
  from delete_cases [of w s rid]
  consider
    (first) e where "next_fault w = Some e"
      "?d = (Inl e, w\<lparr>sent := sent w @ [delete_query s rid], faults := tl (faults w)\<rparr>)"
  | (unchanged) "next_fault w = None" "\<not> deletable w rid"
      "?d = (Inr False, w\<lparr>sent := sent w @ [delete_query s rid], faults := tl (faults w)\<rparr>)"
  | (audit) e where "next_fault w = None" "deletable w rid"
      "next_fault (w\<lparr>faults := tl (faults w)\<rparr>) = Some e"
      "fst ?d = Inl e" "access_rows (snd ?d) = ?kept" "audit_rows (snd ?d) = audit_rows w"
  | (removed) "next_fault w = None" "deletable w rid"
      "next_fault (w\<lparr>faults := tl (faults w)\<rparr>) = None"
      "fst ?d = Inr True" "access_rows (snd ?d) = ?kept"
      "audit_rows (snd ?d) = audit_rows w @ [delete_entry s rid]"
    by (elim disjE exE conjE) simp_all
  then show ?thesis
  proof cases
    case first
    from first(1) have "\<not> no_fault w" using no_fault_next [of w] by auto
    moreover from first(2) have "fst ?d = Inl e" "access_rows (snd ?d) = access_rows w"
      "audit_rows (snd ?d) = audit_rows w" by simp_all
    ultimately show ?thesis using first(1) by simp
  next
    case unchanged
    from unchanged(3) have "fst ?d = Inr False" "access_rows (snd ?d) = access_rows w"
      "audit_rows (snd ?d) = audit_rows w" by simp_all
    then show ?thesis using unchanged(2) same by simp
  next
    case audit
    from audit(3) have "\<not> no_fault w" using no_fault_second [of w] by auto
    then show ?thesis using audit(2,4,5,6) by simp
  next
    case removed
    then show ?thesis using shorter by simp
  qed
qed

theorem delete_access_rule_contract_witness:
  "\<not> deletable (warehouse_with_rule 101) 1
   \<and> delete_access_rule warehouse_run session0 1 (warehouse_with_rule 101) =
       (Inr False, (warehouse_with_rule 101)\<lparr>sent := [delete_query session0 1]\<rparr>)
   \<and> deletable (warehouse_with_rule 100) 1
   \<and> fst (delete_access_rule warehouse_run session0 1 (warehouse_with_rule 100)) = Inr True
   \<and> access_rows (snd (delete_access_rule warehouse_run session0 1 (warehouse_with_rule 100))) = []
   \<and> audit_rows (snd (delete_access_rule warehouse_run session0 1 (warehouse_with_rule 100))) =
       [delete_entry session0 1]
   \<and> ((audit_rows (snd (delete_access_rule warehouse_run session0 1 (warehouse_with_rule 100)))
          \<noteq> audit_rows (warehouse_with_rule 100)) =
        (length (access_rows (snd (delete_access_rule warehouse_run session0 1
                                     (warehouse_with_rule 100))))
           < length (access_rows (warehouse_with_rule 100))))"
proof -
  let ?later = "delete_access_rule warehouse_run session0 1 (warehouse_with_rule 101)"
  let ?now = "delete_access_rule warehouse_run session0 1 (warehouse_with_rule 100)"
  have nd: "\<not> deletable (warehouse_with_rule 101) 1" by code_simp
  have d: "deletable (warehouse_with_rule 100) 1" by code_simp
  have nf1: "next_fault (warehouse_with_rule 101) = None" by code_simp
  have nf2: "no_fault (warehouse_with_rule 100)" by code_simp
  have kept: "filter (\<lambda>r. \<not> (row_id r = 1 \<and> expired_by (today (warehouse_with_rule 100)) r))
                (access_rows (warehouse_with_rule 100)) = []"
    by code_simp
  have audit0: "audit_rows (warehouse_with_rule 100) = []" by code_simp
  have whole: "?later = (Inr False, (warehouse_with_rule 101)\<lparr>sent := [delete_query session0 1]\<rparr>)"
    by (simp add: delete_access_rule_def execute_update_def warehouse_run_def next_fault_def
         warehouse_with_rule_def warehouse0_def delete_query_def expired_by_def)
  note c101 = delete_access_rule_contract [of session0 1 "warehouse_with_rule 101"]
  note c100 = delete_access_rule_contract [of session0 1 "warehouse_with_rule 100"]
  from c101 have "\<not> deletable (warehouse_with_rule 101) 1 \<longrightarrow>
        fst ?later \<noteq> Inr True
        \<and> access_rows (snd ?later) = access_rows (warehouse_with_rule 101)
        \<and> audit_rows (snd ?later) = audit_rows (warehouse_with_rule 101)"
    by (elim conjE)
  with nd have untouched: "fst ?later \<noteq> Inr True
        \<and> access_rows (snd ?later) = access_rows (warehouse_with_rule 101)
        \<and> audit_rows (snd ?later) = audit_rows (warehouse_with_rule 101)"
    by (rule rev_mp)
  from c101 have "\<not> deletable (warehouse_with_rule 101) 1 \<and> next_fault (warehouse_with_rule 101) = None
        \<longrightarrow> fst ?later = Inr False"
    by (elim conjE)
  moreover from nd nf1
  have "\<not> deletable (warehouse_with_rule 101) 1 \<and> next_fault (warehouse_with_rule 101) = None"
    by (rule conjI)
  ultimately have refused: "fst ?later = Inr False" by (rule mp)
  from c100 have "no_fault (warehouse_with_rule 100) \<longrightarrow>
        fst ?now = Inr (deletable (warehouse_with_rule 100) 1)
        \<and> access_rows (snd ?now) =
            filter (\<lambda>r. \<not> (row_id r = 1 \<and> expired_by (today (warehouse_with_rule 100)) r))
              (access_rows (warehouse_with_rule 100))
        \<and> audit_rows (snd ?now) =
            (if deletable (warehouse_with_rule 100) 1
             then audit_rows (warehouse_with_rule 100) @ [delete_entry session0 1]
             else audit_rows (warehouse_with_rule 100))"
    by (elim conjE)
  with nf2 have "fst ?now = Inr (deletable (warehouse_with_rule 100) 1)
        \<and> access_rows (snd ?now) =
            filter (\<lambda>r. \<not> (row_id r = 1 \<and> expired_by (today (warehouse_with_rule 100)) r))
              (access_rows (warehouse_with_rule 100))
        \<and> audit_rows (snd ?now) =
            (if deletable (warehouse_with_rule 100) 1
             then audit_rows (warehouse_with_rule 100) @ [delete_entry session0 1]
             else audit_rows (warehouse_with_rule 100))"
    by (rule rev_mp)
  then have done_now: "fst ?now = Inr True \<and> access_rows (snd ?now) = []
        \<and> audit_rows (snd ?now) = [delete_entry session0 1]"
    by (simp only: d kept audit0 if_True append_Nil)
  from c100 have "fst ?now = Inr True \<longrightarrow> deletable (warehouse_with_rule 100) 1"
    by (elim conjE)
  with done_now have again: "deletable (warehouse_with_rule 100) 1"
    by (elim conjE) (rule mp)
  from c100 have "audit_rows (snd ?now) \<noteq> audit_rows (warehouse_with_rule 100) \<longrightarrow>
        length (access_rows (snd ?now)) < length (access_rows (warehouse_with_rule 100))
        \<and> audit_rows (snd ?now) = audit_rows (warehouse_with_rule 100) @ [delete_entry session0 1]"
    by (elim conjE)
  moreover from done_now have "audit_rows (snd ?now) \<noteq> audit_rows (warehouse_with_rule 100)"
    by (simp only: audit0) simp
  ultimately have "length (access_rows (snd ?now)) < length (access_rows (warehouse_with_rule 100))
        \<and> audit_rows (snd ?now) = audit_rows (warehouse_with_rule 100) @ [delete_entry session0 1]"
    by (rule mp)
  from c100 have "\<forall>ok. fst ?now = Inr ok \<longrightarrow>
        ok = deletable (warehouse_with_rule 100) 1
        \<and> access_rows (snd ?now) =
            filter (\<lambda>r. \<not> (row_id r = 1 \<and> expired_by (today (warehouse_with_rule 100)) r))
              (access_rows (warehouse_with_rule 100))
        \<and> audit_rows (snd ?now) =
            (if ok then audit_rows (warehouse_with_rule 100) @ [delete_entry session0 1]
             else audit_rows (warehouse_with_rule 100))
        \<and> ((audit_rows (snd ?now) \<noteq> audit_rows (warehouse_with_rule 100)) =
            (length (access_rows (snd ?now)) < length (access_rows (warehouse_with_rule 100))))"
    by (elim conjE)
  then have "fst ?now = Inr True \<longrightarrow>
        True = deletable (warehouse_with_rule 100) 1
        \<and> access_rows (snd ?now) =
            filter (\<lambda>r. \<not> (row_id r = 1 \<and> expired_by (today (warehouse_with_rule 100)) r))
              (access_rows (warehouse_with_rule 100))
        \<and> audit_rows (snd ?now) =
            (if True then audit_rows (warehouse_with_rule 100) @ [delete_entry session0 1]
             else audit_rows (warehouse_with_rule 100))
        \<and> ((audit_rows (snd ?now) \<noteq> audit_rows (warehouse_with_rule 100)) =
            (length (access_rows (snd ?now)) < length (access_rows (warehouse_with_rule 100))))"
    by (rule spec)
  moreover from done_now have "fst ?now = Inr True" by (elim conjE)
  ultimately have "True = deletable (warehouse_with_rule 100) 1
        \<and> access_rows (snd ?now) =
            filter (\<lambda>r. \<not> (row_id r = 1 \<and> expired_by (today (warehouse_with_rule 100)) r))
              (access_rows (warehouse_with_rule 100))
        \<and> audit_rows (snd ?now) =
            (if True then audit_rows (warehouse_with_rule 100) @ [delete_entry session0 1]
             else audit_rows (warehouse_with_rule 100))
        \<and> ((audit_rows (snd ?now) \<noteq> audit_rows (warehouse_with_rule 100)) =
            (length (access_rows (snd ?now)) < length (access_rows (warehouse_with_rule 100))))"
    by (rule mp)
  then have exact: "(audit_rows (snd ?now) \<noteq> audit_rows (warehouse_with_rule 100)) =
            (length (access_rows (snd ?now)) < length (access_rows (warehouse_with_rule 100)))"
    by (elim conjE)
  from nd whole again done_now exact show ?thesis by (intro conjI) (elim conjE, assumption)+
qed

text \<open>
  Claim C5 as stated fails in its last part: when the \<open>DELETE\<close> has removed the
  expired rule and the audit \<open>INSERT\<close> that follows raises, the call ends with that
  exception, the row is gone and no \<open>DELETE\<close> record has been written. And a rule
  that is not yet expired is not reported as a failure when the \<open>DELETE\<close> itself
  raises: the call ends with the exception.
\<close>

theorem delete_access_rule_loses_audit_record:
  "access_rows ((warehouse_with_rule 100)\<lparr>faults := [None, Some (Error ''audit table locked'')]\<rparr>)
     \<noteq> []
   \<and> fst (delete_access_rule warehouse_run session0 1
            ((warehouse_with_rule 100)\<lparr>faults := [None, Some (Error ''audit table locked'')]\<rparr>)) =
       Inl (Error ''audit table locked'')
   \<and> access_rows (snd (delete_access_rule warehouse_run session0 1
            ((warehouse_with_rule 100)\<lparr>faults := [None, Some (Error ''audit table locked'')]\<rparr>))) = []
   \<and> audit_rows (snd (delete_access_rule warehouse_run session0 1
            ((warehouse_with_rule 100)\<lparr>faults := [None, Some (Error ''audit table locked'')]\<rparr>))) =
       audit_rows ((warehouse_with_rule 100)\<lparr>faults := [None, Some (Error ''audit table locked'')]\<rparr>)
   \<and> sent (snd (delete_access_rule warehouse_run session0 1
            ((warehouse_with_rule 100)\<lparr>faults := [None, Some (Error ''audit table locked'')]\<rparr>))) =
       [delete_query session0 1,
        audit_query session0 ''DELETE'' ''GROUP_ACCESS'' ''1'' None (Some ''deleted'')
          (Some ''Deleted via UI after expiration'')]
   \<and> \<not> deletable ((warehouse_with_rule 101)\<lparr>faults := [Some (Error ''connection lost'')]\<rparr>) 1
   \<and> fst (delete_access_rule warehouse_run session0 1
            ((warehouse_with_rule 101)\<lparr>faults := [Some (Error ''connection lost'')]\<rparr>)) =
       Inl (Error ''connection lost'')"
proof -
  have one: "py_str 1 = ''1''"
    by code_simp
  show ?thesis
    by (simp add: delete_access_rule_def log_action_def execute_update_def warehouse_run_def
          next_fault_def warehouse_with_rule_def warehouse0_def delete_query_def expired_by_def
          audit_query_def deletable_def one)
qed

lemma execute_insert_ok:
  "next_fault w = None \<Longrightarrow>
   execute_update warehouse_run (insert_query s g nids t eff exp n) w =
     (Inr 1,
      w\<lparr>sent := sent w @ [insert_query s g nids t eff exp n], faults := tl (faults w),
         access_rows := access_rows w @
           [\<lparr>row_id = next_id w, group_name = g,
             customer_ids = array_value (customer_ids_array nids), access_type = t,
             effective_date = Some eff, expiration_date = exp, rule_notes = n,
             created_by = get_current_user_email (email s),
             modified_by = get_current_user_email (email s)\<rparr>],
         next_id := next_id w + 1\<rparr>)"
  by (simp add: execute_update_ok insert_query_def)

lemma execute_update_query_ok:
  "next_fault w = None \<Longrightarrow>
   execute_update warehouse_run (update_query s rid g nids t eff exp n) w =
     (Inr (int (length (filter (\<lambda>r. row_id r = rid) (access_rows w)))),
      w\<lparr>sent := sent w @ [update_query s rid g nids t eff exp n], faults := tl (faults w),
         access_rows :=
           map (\<lambda>r. if row_id r = rid
                     then r\<lparr>group_name := g, customer_ids := array_value (customer_ids_array nids),
                            access_type := t, effective_date := Some eff, expiration_date := exp,
                            rule_notes := n, modified_by := get_current_user_email (email s)\<rparr>
                     else r) (access_rows w)\<rparr>)"
  by (simp add: execute_update_ok update_query_def)

lemma add_ok:
  assumes "no_fault w"
  shows "fst (add_access_rule warehouse_run s g ids t eff exp n w) = Inr True
    \<and> access_rows (snd (add_access_rule warehouse_run s g ids t eff exp n w)) =
        access_rows w @
           [\<lparr>row_id = next_id w, group_name = g,
             customer_ids = array_value (customer_ids_array (normalize_customer_ids ids)),
             access_type = t, effective_date = Some eff, expiration_date = exp, rule_notes = n,
             created_by = get_current_user_email (email s),
             modified_by = get_current_user_email (email s)\<rparr>]"
proof -
  let ?nids = "normalize_customer_ids ids"
  let ?q = "insert_query s g ?nids t eff exp n"
  let ?w2 = "w\<lparr>sent := sent w @ [?q], faults := tl (faults w),
         access_rows := access_rows w @
           [\<lparr>row_id = next_id w, group_name = g,
             customer_ids = array_value (customer_ids_array ?nids), access_type = t,
             effective_date = Some eff, expiration_date = exp, rule_notes = n,
             created_by = get_current_user_email (email s),
             modified_by = get_current_user_email (email s)\<rparr>],
         next_id := next_id w + 1\<rparr>"
  let ?nv = "Some (''customer_ids='' @ py_list_str ?nids @ '', access_type='' @ t)"
  let ?w3 = "?w2\<lparr>sent := sent ?w2 @ [audit_query s ''INSERT'' ''GROUP_ACCESS'' g None ?nv n],
         faults := tl (faults ?w2),
         audit_rows := audit_rows ?w2 @
           [\<lparr>user = get_current_user_email (email s), action_type = ''INSERT'',
             object_type = ''GROUP_ACCESS'', object_name = g, old_value = None, new_value = ?nv,
             audit_notes = n\<rparr>]\<rparr>"
  have e1: "execute_update warehouse_run ?q w = (Inr 1, ?w2)"
    using no_fault_next [OF assms] by (rule execute_insert_ok)
  have "next_fault ?w2 = next_fault (w\<lparr>faults := tl (faults w)\<rparr>)"
    by (rule next_fault_faults) simp
  then have nf2: "next_fault ?w2 = None" using no_fault_second [OF assms] by simp
  have e2: "log_action warehouse_run s ''INSERT'' ''GROUP_ACCESS'' g None ?nv n ?w2 = (Inr (), ?w3)"
    using nf2 by (rule log_action_ok)
  have "add_access_rule warehouse_run s g ids t eff exp n w = (Inr True, ?w3)"
    unfolding add_access_rule_def Let_def
    by (simp only: e1 e2 prod.case sum.case)
  then show ?thesis by simp
qed

lemma update_ok:
  assumes "no_fault w"
  shows "fst (update_access_rule warehouse_run s rid g ids t eff exp n w) = Inr True
    \<and> access_rows (snd (update_access_rule warehouse_run s rid g ids t eff exp n w)) =
        map (\<lambda>r. if row_id r = rid
                  then r\<lparr>group_name := g,
                         customer_ids := array_value (customer_ids_array (normalize_customer_ids ids)),
                         access_type := t, effective_date := Some eff, expiration_date := exp,
                         rule_notes := n, modified_by := get_current_user_email (email s)\<rparr>
                  else r) (access_rows w)"
proof -
  let ?nids = "normalize_customer_ids ids"
  let ?q = "update_query s rid g ?nids t eff exp n"
  let ?c = "int (length (filter (\<lambda>r. row_id r = rid) (access_rows w)))"
  let ?w2 = "w\<lparr>sent := sent w @ [?q], faults := tl (faults w),
         access_rows :=
           map (\<lambda>r. if row_id r = rid
                     then r\<lparr>group_name := g, customer_ids := array_value (customer_ids_array ?nids),
                            access_type := t, effective_date := Some eff, expiration_date := exp,
                            rule_notes := n, modified_by := get_current_user_email (email s)\<rparr>
                     else r) (access_rows w)\<rparr>"
  let ?nv = "Some (''group_name='' @ g @ '', customer_ids='' @ py_list_str ?nids @
                   '', access_type='' @ t)"
  let ?w3 = "?w2\<lparr>sent := sent ?w2 @ [audit_query s ''UPDATE'' ''GROUP_ACCESS'' (py_str rid) None ?nv n],
         faults := tl (faults ?w2),
         audit_rows := audit_rows ?w2 @
           [\<lparr>user = get_current_user_email (email s), action_type = ''UPDATE'',
             object_type = ''GROUP_ACCESS'', object_name = py_str rid, old_value = None,
             new_value = ?nv, audit_notes = n\<rparr>]\<rparr>"
  have e1: "execute_update warehouse_run ?q w = (Inr ?c, ?w2)"
    using no_fault_next [OF assms] by (rule execute_update_query_ok)
  have "next_fault ?w2 = next_fault (w\<lparr>faults := tl (faults w)\<rparr>)"
    by (rule next_fault_faults) simp
  then have nf2: "next_fault ?w2 = None" using no_fault_second [OF assms] by simp
  have e2: "log_action warehouse_run s ''UPDATE'' ''GROUP_ACCESS'' (py_str rid) None ?nv n ?w2 =
            (Inr (), ?w3)"
    using nf2 by (rule log_action_ok)
  have "update_access_rule warehouse_run s rid g ids t eff exp n w = (Inr True, ?w3)"
    unfolding update_access_rule_def Let_def
    by (simp only: e1 e2 prod.case sum.case)
  then show ?thesis by simp
qed

text \<open>
  Claim C9. When the ids normalize to the empty list, the expression spliced into the
  \<open>INSERT\<close> and \<open>UPDATE\<close> statements is \<open>NULL\<close>, and the stored (or updated) rule
  has a \<open>NULL\<close> \<open>customer_ids\<close> column. No input makes the statement store an
  empty array, and a \<open>NULL\<close> column reads back as the empty list.
\<close>

theorem empty_ids_stored_as_null:
  "(normalize_customer_ids ids = [] \<longrightarrow>
      sql_text (customer_ids_array (normalize_customer_ids ids)) = ''NULL''
      \<and> insert_query s g (normalize_customer_ids ids) t eff exp n =
          Insert_access (qualify_table (access_table (settings s)) (settings s)) SqlNULL
            g t eff exp n (get_current_user_email (email s))
      \<and> update_query s rid g (normalize_customer_ids ids) t eff exp n =
          Update_access (qualify_table (access_table (settings s)) (settings s)) SqlNULL rid
            g t eff exp n (get_current_user_email (email s))
      \<and> (no_fault w \<longrightarrow>
          fst (add_access_rule warehouse_run s g ids t eff exp n w) = Inr True
          \<and> access_rows (snd (add_access_rule warehouse_run s g ids t eff exp n w)) =
              access_rows w @
                [\<lparr>row_id = next_id w, group_name = g, customer_ids = None, access_type = t,
                  effective_date = Some eff, expiration_date = exp, rule_notes = n,
                  created_by = get_current_user_email (email s),
                  modified_by = get_current_user_email (email s)\<rparr>]
          \<and> fst (update_access_rule warehouse_run s rid g ids t eff exp n w) = Inr True
          \<and> access_rows (snd (update_access_rule warehouse_run s rid g ids t eff exp n w)) =
              map (\<lambda>r. if row_id r = rid
                        then r\<lparr>group_name := g, customer_ids := None, access_type := t,
                               effective_date := Some eff, expiration_date := exp,
                               rule_notes := n,
                               modified_by := get_current_user_email (email s)\<rparr>
                        else r) (access_rows w)))
   \<and> customer_ids_array (normalize_customer_ids ids) \<noteq> SqlArray []
   \<and> normalize_ids None = []"
proof -
  have a: "normalize_customer_ids ids = [] \<Longrightarrow>
           array_value (customer_ids_array (normalize_customer_ids ids)) = None"
    by (simp add: customer_ids_array_def)
  have b: "customer_ids_array (normalize_customer_ids ids) \<noteq> SqlArray []"
    by (simp add: customer_ids_array_def)
  have c: "normalize_ids None = []" by (simp add: normalize_ids_def)
  have d: "normalize_customer_ids ids = [] \<Longrightarrow>
      sql_text (customer_ids_array (normalize_customer_ids ids)) = ''NULL''
      \<and> insert_query s g (normalize_customer_ids ids) t eff exp n =
          Insert_access (qualify_table (access_table (settings s)) (settings s)) SqlNULL
            g t eff exp n (get_current_user_email (email s))
      \<and> update_query s rid g (normalize_customer_ids ids) t eff exp n =
          Update_access (qualify_table (access_table (settings s)) (settings s)) SqlNULL rid
            g t eff exp n (get_current_user_email (email s))"
    by (simp add: customer_ids_array_def insert_query_def update_query_def)
  show ?thesis
    using a b c d add_ok [of w s g ids t eff exp n] update_ok [of w s rid g ids t eff exp n]
    by (cases "normalize_customer_ids ids = []") simp_all
qed

theorem empty_ids_stored_as_null_witness:
  "normalize_customer_ids [] = [] \<and> no_fault (warehouse_with_rule 100)
   \<and> sql_text (customer_ids_array (normalize_customer_ids [])) = ''NULL''
   \<and> fst (add_access_rule warehouse_run session0 ''analysts'' [] ''EXCLUDE'' 50 None None
            (warehouse_with_rule 100)) = Inr True
   \<and> map customer_ids
        (access_rows (snd (add_access_rule warehouse_run session0 ''analysts'' [] ''EXCLUDE'' 50
                             None None (warehouse_with_rule 100)))) = [Some [1, 3], None]
   \<and> map customer_ids
        (access_rows (snd (update_access_rule warehouse_run session0 1 ''analysts'' [] ''EXCLUDE'' 50
                             None None (warehouse_with_rule 100)))) = [None]"
proof -
  have h1: "normalize_customer_ids [] = []" by code_simp
  have h2: "no_fault (warehouse_with_rule 100)" by code_simp
  note c = empty_ids_stored_as_null [of "[]" session0 "''analysts''" "''EXCLUDE''" 50 None None 1
             "warehouse_with_rule 100"]
  note body = c [THEN conjunct1, THEN mp, OF h1]
  note null_text = body [THEN conjunct1]
  note res = body [THEN conjunct2, THEN conjunct2, THEN conjunct2, THEN mp, OF h2]
  note add_true = res [THEN conjunct1]
  note added = res [THEN conjunct2, THEN conjunct1]
  note updated = res [THEN conjunct2, THEN conjunct2, THEN conjunct2]
  have a: "map customer_ids
        (access_rows (snd (add_access_rule warehouse_run session0 ''analysts'' [] ''EXCLUDE'' 50
                             None None (warehouse_with_rule 100)))) = [Some [1, 3], None]"
    by (simp only: added) (simp add: warehouse_with_rule_def warehouse0_def)
  have u: "map customer_ids
        (access_rows (snd (update_access_rule warehouse_run session0 1 ''analysts'' [] ''EXCLUDE'' 50
                             None None (warehouse_with_rule 100)))) = [None]"
    by (simp only: updated) (simp add: warehouse_with_rule_def warehouse0_def)
  from h1 h2 null_text add_true a u show ?thesis by (intro conjI)
qed

section \<open>The generated row filter\<close>

text \<open>
  Claim C1 on the code. A rule added with access type \<open>EXCLUDE\<close> and no ids is stored
  with a \<open>NULL\<close> \<open>customer_ids\<close> column. For a member of the group, on a day inside
  the rule's window, the generated row filter is true for every customer id, because the
  disjunct \<open>customer_ids IS NULL\<close> holds whatever the access type is; the summary of
  the Audit Reports page describes the same rule as \<open>Access EXCLUDED for all customers\<close>.
  A stored empty array gives the same filter result.
\<close>

theorem exclude_without_ids_is_visible:
  "access_rows (snd (add_access_rule warehouse_run session0 ''analysts'' [] ''EXCLUDE'' 50 None None
                      warehouse0)) =
     [\<lparr>row_id = 1, group_name = ''analysts'', customer_ids = None, access_type = ''EXCLUDE'',
       effective_date = Some 50, expiration_date = None, rule_notes = None,
       created_by = ''ada@example.com'', modified_by = ''ada@example.com''\<rparr>]
   \<and> customer_access_filter member_of_all
        (snd (add_access_rule warehouse_run session0 ''analysts'' [] ''EXCLUDE'' 50 None None
                warehouse0)) customer_id
   \<and> map build_access_summary
        (access_rows (snd (add_access_rule warehouse_run session0 ''analysts'' [] ''EXCLUDE'' 50
                             None None warehouse0))) =
      [''Access EXCLUDED for all customers'']
   \<and> customer_access_filter member_of_all
        (warehouse0\<lparr>access_rows :=
           [\<lparr>row_id = 1, group_name = ''analysts'', customer_ids = Some [], access_type = ''EXCLUDE'',
             effective_date = Some 50, expiration_date = None, rule_notes = None,
             created_by = ''ada@example.com'', modified_by = ''ada@example.com''\<rparr>]\<rparr>) customer_id"
proof -
  let ?w = "snd (add_access_rule warehouse_run session0 ''analysts'' [] ''EXCLUDE'' 50 None None
                   warehouse0)"
  have rows: "access_rows ?w =
     [\<lparr>row_id = 1, group_name = ''analysts'', customer_ids = None, access_type = ''EXCLUDE'',
       effective_date = Some 50, expiration_date = None, rule_notes = None,
       created_by = ''ada@example.com'', modified_by = ''ada@example.com''\<rparr>]"
    by code_simp
  have day: "today ?w = 100" by code_simp
  have visible: "customer_access_filter member_of_all ?w customer_id"
    by (simp add: customer_access_filter_def rows day access_filter_where_def member_of_all_def
          sql_and_def sql_or_def sql_le_def sql_gt_def)
  have summary: "map build_access_summary (access_rows ?w) = [''Access EXCLUDED for all customers'']"
    unfolding rows by code_simp
  have empty_array: "customer_access_filter member_of_all
        (warehouse0\<lparr>access_rows :=
           [\<lparr>row_id = 1, group_name = ''analysts'', customer_ids = Some [], access_type = ''EXCLUDE'',
             effective_date = Some 50, expiration_date = None, rule_notes = None,
             created_by = ''ada@example.com'', modified_by = ''ada@example.com''\<rparr>]\<rparr>) customer_id"
    by (simp add: customer_access_filter_def warehouse0_def access_filter_where_def member_of_all_def
          sql_and_def sql_or_def sql_le_def sql_gt_def sql_not_def array_contains_def)
  from rows visible summary empty_array show ?thesis by (intro conjI)
qed

section \<open>The propagation planner\<close>

subsection \<open>The dictionary of categories\<close>

lemma keys_setdefault_update:
  "set (map fst (setdefault_update k t acc)) = insert k (set (map fst acc))"
  by (induction k t acc rule: setdefault_update.induct) (simp_all add: insert_commute)

lemma distinct_setdefault_update:
  "distinct (map fst acc) \<Longrightarrow> distinct (map fst (setdefault_update k t acc))"
proof (induction acc)
  case Nil
  then show ?case by simp
next
  case (Cons p acc)
  obtain k' s where p: "p = (k', s)" by (cases p)
  show ?case
  proof (cases "k' = k")
    case True
    with Cons.prems p show ?thesis by simp
  next
    case False
    from Cons.prems p have "k' \<notin> set (map fst acc)" and "distinct (map fst acc)" by simp_all
    with False Cons.IH p show ?thesis
      by (simp add: keys_setdefault_update del: set_map)
  qed
qed

lemma map_of_setdefault_update:
  "map_of (setdefault_update k t acc) k' =
     (if k' = k then Some ((case map_of acc k of None \<Rightarrow> {} | Some s \<Rightarrow> s) \<union> set t)
      else map_of acc k')"
  by (induction k t acc rule: setdefault_update.induct) auto

lemma keys_foldl_update:
  "set (map fst (foldl (\<lambda>acc b. setdefault_update (key b) (toks b) acc) acc bs)) =
   set (map fst acc) \<union> key ` set bs"
  by (induction bs arbitrary: acc) (auto simp: keys_setdefault_update simp del: set_map)

lemma distinct_foldl_update:
  "distinct (map fst acc) \<Longrightarrow>
   distinct (map fst (foldl (\<lambda>acc b. setdefault_update (key b) (toks b) acc) acc bs))"
  by (induction bs arbitrary: acc) (simp_all add: distinct_setdefault_update)

lemma map_of_foldl_update:
  "map_of (foldl (\<lambda>acc b. setdefault_update (key b) (toks b) acc) acc bs) k =
     (if k \<in> key ` set bs
      then Some ((case map_of acc k of None \<Rightarrow> {} | Some s \<Rightarrow> s)
                 \<union> \<Union> (set (map (\<lambda>b. set (toks b)) (filter (\<lambda>b. key b = k) bs))))
      else map_of acc k)"
proof (induction bs arbitrary: acc)
  case Nil
  then show ?case by simp
next
  case (Cons b bs)
  let ?acc' = "setdefault_update (key b) (toks b) acc"
  have step: "foldl (\<lambda>acc b. setdefault_update (key b) (toks b) acc) acc (b # bs) =
              foldl (\<lambda>acc b. setdefault_update (key b) (toks b) acc) ?acc' bs" by simp
  show ?case
  proof (cases "key b = k")
    case True
    then have m: "map_of ?acc' k = Some ((case map_of acc k of None \<Rightarrow> {} | Some s \<Rightarrow> s) \<union> set (toks b))"
      by (simp add: map_of_setdefault_update)
    show ?thesis
      unfolding step Cons.IH [of ?acc'] using True m by (auto simp: image_iff)
  next
    case False
    then have m: "map_of ?acc' k = map_of acc k"
      by (simp add: map_of_setdefault_update)
    show ?thesis
      unfolding step Cons.IH [of ?acc'] using False m by auto
  qed
qed

lemma foldl_nested:
  "foldl (\<lambda>acc x. foldl (\<lambda>acc y. h acc (y, val x)) acc (g x)) a xs =
   foldl h a (concat (map (\<lambda>x. map (\<lambda>y. (y, val x)) (g x)) xs))"
  by (induction xs arbitrary: a) (simp_all add: foldl_map)

lemma collect_tables_covering:
  "collect_tables md tag tc ts =
   foldl (\<lambda>acc b. setdefault_update (key_of (fst b)) (split_rls_types (str_value (snd b))) acc) []
     (covering md tag tc ts)"
proof -
  let ?h = "\<lambda>acc b. setdefault_update (key_of (fst b)) (split_rls_types (str_value (snd b))) acc"
  have cat: "\<And>a xs. foldl (\<lambda>acc (c, v).
                     foldl (\<lambda>acc (tc, ts, tn).
                              setdefault_update (table_key tc ts tn) (split_rls_types (str_value v)) acc)
                       acc (get_tables_in_catalog md c)) a xs =
             foldl ?h a (concat (map (\<lambda>(c, v). map (\<lambda>tbl. (tbl, v)) (get_tables_in_catalog md c)) xs))"
    using foldl_nested [of ?h snd "\<lambda>x. get_tables_in_catalog md (fst x)"]
    by (simp add: split_def key_of_def)
  have sch: "\<And>a xs. foldl (\<lambda>acc (c, s, v).
                     foldl (\<lambda>acc (tc, ts, tn).
                              setdefault_update (table_key tc ts tn) (split_rls_types (str_value v)) acc)
                       acc (get_tables_in_schema md c s)) a xs =
             foldl ?h a (concat (map (\<lambda>(c, s, v). map (\<lambda>tbl. (tbl, v)) (get_tables_in_schema md c s)) xs))"
    using foldl_nested [of ?h "\<lambda>x. snd (snd x)" "\<lambda>x. get_tables_in_schema md (fst x) (fst (snd x))"]
    by (simp add: split_def key_of_def)
  have tab: "\<And>a xs. foldl (\<lambda>acc (c, s, n, v).
                  setdefault_update (table_key c s n) (split_rls_types (str_value v)) acc) a xs =
             foldl ?h a (map (\<lambda>(c, s, n, v). ((c, s, n), v)) xs)"
    by (simp add: foldl_map split_def key_of_def)
  show ?thesis
    unfolding collect_tables_def covering_def Let_def cat sch tab foldl_append ..
qed

subsection \<open>Keys and their parts\<close>

lemma split_fqn_key:
  "CHR ''.'' \<notin> set c \<Longrightarrow> CHR ''.'' \<notin> set s \<Longrightarrow> split_fqn (table_key c s n) = Some (c, s, n)"
  by (simp add: split_fqn_def table_key_def split_first_at)

lemma split_fqn_key_of: "dot_free tbl \<Longrightarrow> split_fqn (key_of tbl) = Some tbl"
  by (cases tbl) (simp add: dot_free_def key_of_def split_fqn_key)

lemma key_of_inject:
  assumes "dot_free a" "dot_free b" "key_of a = key_of b"
  shows "a = b"
proof -
  have "Some a = split_fqn (key_of a)" using assms(1) by (simp only: split_fqn_key_of)
  also have "\<dots> = split_fqn (key_of b)" by (simp only: assms(3))
  also have "\<dots> = Some b" using assms(2) by (simp only: split_fqn_key_of)
  finally show ?thesis by simp
qed

lemma split_fqn_rebuild: "split_fqn k = Some (c, s, n) \<Longrightarrow> k = table_key c s n"
proof -
  assume a: "split_fqn k = Some (c, s, n)"
  obtain p r where pr: "split_first CHR ''.'' k = (p, r)" by (cases "split_first CHR ''.'' k")
  obtain q t where qt: "split_first CHR ''.'' r = (q, t)" by (cases "split_first CHR ''.'' r")
  from a pr qt have dk: "CHR ''.'' \<in> set k" and dr: "CHR ''.'' \<in> set r"
    and eq: "c = p" "s = q" "n = t"
    by (auto simp: split_fqn_def split: if_splits)
  from dk pr have "k = p @ CHR ''.'' # r" by (rule split_first_rebuild)
  moreover from dr qt have "r = q @ CHR ''.'' # t" by (rule split_first_rebuild)
  ultimately show ?thesis using eq by (simp add: table_key_def)
qed

lemma second_occurrence:
  "x \<in> set (tl (dropWhile (\<lambda>y. y \<noteq> x) (a @ x # b @ x # r)))"
  by (induction a) auto

lemma split_fqn_table_key: "split_fqn (table_key c s n) \<noteq> None"
proof -
  let ?k = "table_key c s n"
  have k: "?k = c @ CHR ''.'' # s @ CHR ''.'' # n" by (simp add: table_key_def)
  have "CHR ''.'' \<in> set ?k" by (simp add: k)
  moreover have "CHR ''.'' \<in> set (snd (split_first CHR ''.'' ?k))"
    unfolding split_first_def k snd_conv by (rule second_occurrence)
  ultimately show ?thesis
    by (auto simp: split_fqn_def split: prod.splits)
qed

subsection \<open>The loop over the dictionary\<close>

lemma plan_actions_closed:
  "list_all (\<lambda>p. split_fqn (fst p) \<noteq> None) items \<Longrightarrow>
   plan_actions md req col tag val items acc =
     Inr (acc @ map (\<lambda>p. action_for col tag val (the (split_fqn (fst p))))
                  (filter (\<lambda>p. req \<in> snd p \<and>
                                 col \<in> set (case the (split_fqn (fst p)) of
                                               (c, s, n) \<Rightarrow> get_table_columns md c s n)) items))"
proof (induction items arbitrary: acc)
  case Nil
  then show ?case by simp
next
  case (Cons p items)
  obtain k S where p: "p = (k, S)" by (cases p)
  from Cons.prems p obtain c s n where sp: "split_fqn k = Some (c, s, n)" by auto
  then have k: "k = table_key c s n" by (rule split_fqn_rebuild)
  from Cons.prems have rest: "list_all (\<lambda>p. split_fqn (fst p) \<noteq> None) items" by simp
  note ih = Cons.IH [OF rest]
  show ?case
    by (simp add: p sp ih action_for_def k [symmetric])
qed

subsection \<open>The plan, table by table\<close>

lemma covering_tables:
  "b \<in> set (covering md tag tc ts) \<Longrightarrow>
   fst b \<in> set (tables md) \<or> (\<exists>t v. (fst (fst b), fst (snd (fst b)), snd (snd (fst b)), t, v) \<in> set (table_tags md))"
  by (auto simp: covering_def get_tables_in_catalog_def get_tables_in_schema_def
        get_tagged_tables_def)

lemma covering_dot_free:
  assumes "wf_names md" "b \<in> set (covering md tag tc ts)"
  shows "dot_free (fst b)"
proof -
  from covering_tables [OF assms(2)]
  show ?thesis
  proof
    assume "fst b \<in> set (tables md)"
    with assms(1) show ?thesis by (auto simp: wf_names_def list_all_iff)
  next
    assume "\<exists>t v. (fst (fst b), fst (snd (fst b)), snd (snd (fst b)), t, v) \<in> set (table_tags md)"
    then obtain t v where "(fst (fst b), fst (snd (fst b)), snd (snd (fst b)), t, v) \<in> set (table_tags md)"
      by blast
    with assms(1) have "dot_free (fst (fst b), fst (snd (fst b)), snd (snd (fst b)))"
      by (auto simp: wf_names_def list_all_iff)
    then show ?thesis by simp
  qed
qed

lemma collect_keys:
  "set (map fst (collect_tables md tag tc ts)) = key_of ` fst ` set (covering md tag tc ts)"
  unfolding collect_tables_covering
  by (simp add: keys_foldl_update image_image del: set_map)

lemma collect_distinct: "distinct (map fst (collect_tables md tag tc ts))"
  unfolding collect_tables_covering by (rule distinct_foldl_update) simp

lemma collect_keys_split:
  "list_all (\<lambda>p. split_fqn (fst p) \<noteq> None) (collect_tables md tag tc ts)"
proof -
  have "split_fqn k \<noteq> None" if "k \<in> set (map fst (collect_tables md tag tc ts))" for k
  proof -
    from that obtain c s n where "k = table_key c s n"
      unfolding collect_keys by (auto simp: key_of_def)
    then show ?thesis using split_fqn_table_key [of c s n] by blast
  qed
  then show ?thesis by (simp add: list_all_iff)
qed

lemma build_closed:
  "build_propagation_plan md tag req col ctag cval tc ts =
     Inr (map (\<lambda>p. action_for col ctag cval (the (split_fqn (fst p))))
            (filter (\<lambda>p. req \<in> snd p \<and>
                           col \<in> set (case the (split_fqn (fst p)) of
                                         (c, s, n) \<Rightarrow> get_table_columns md c s n))
               (collect_tables md tag tc ts)))"
  unfolding build_propagation_plan_def
  using plan_actions_closed [OF collect_keys_split] by simp

lemma collect_categories:
  assumes wf: "wf_names md" and cov: "tbl \<in> fst ` set (covering md tag tc ts)"
  shows "map_of (collect_tables md tag tc ts) (key_of tbl) = Some (categories md tag tc ts tbl)"
proof -
  let ?bs = "covering md tag tc ts"
  from cov obtain b0 where b0: "b0 \<in> set ?bs" "fst b0 = tbl" by auto
  then have df: "dot_free tbl" using covering_dot_free [OF wf] by blast
  have same: "filter (\<lambda>b. key_of (fst b) = key_of tbl) ?bs = filter (\<lambda>b. fst b = tbl) ?bs"
  proof (rule filter_cong [OF refl])
    fix b assume "b \<in> set ?bs"
    then have "dot_free (fst b)" by (rule covering_dot_free [OF wf])
    then show "(key_of (fst b) = key_of tbl) = (fst b = tbl)"
      using df key_of_inject by blast
  qed
  have "key_of tbl \<in> (\<lambda>b. key_of (fst b)) ` set ?bs" using b0 by force
  then have "map_of (collect_tables md tag tc ts) (key_of tbl) =
      Some (\<Union> (set (map (\<lambda>b. set (split_rls_types (str_value (snd b))))
                        (filter (\<lambda>b. key_of (fst b) = key_of tbl) ?bs))))"
    unfolding collect_tables_covering
    by (simp add: map_of_foldl_update del: set_map)
  then show ?thesis
    unfolding same categories_def by (simp add: split_def)
qed

lemma item_of_covered:
  assumes wf: "wf_names md" and p: "p \<in> set (collect_tables md tag tc ts)"
  shows "\<exists>tbl. tbl \<in> fst ` set (covering md tag tc ts) \<and> fst p = key_of tbl
               \<and> the (split_fqn (fst p)) = tbl \<and> snd p = categories md tag tc ts tbl"
proof -
  from p have "fst p \<in> set (map fst (collect_tables md tag tc ts))" by simp
  then obtain tbl where tbl: "tbl \<in> fst ` set (covering md tag tc ts)" "fst p = key_of tbl"
    unfolding collect_keys by auto
  then have "dot_free tbl" using covering_dot_free [OF wf] by auto
  then have sp: "the (split_fqn (fst p)) = tbl" by (simp add: tbl(2) split_fqn_key_of)
  from p have "map_of (collect_tables md tag tc ts) (fst p) = Some (snd p)"
    using collect_distinct [of md tag tc ts] by simp
  with collect_categories [OF wf tbl(1)] tbl(2) have "snd p = categories md tag tc ts tbl" by simp
  with tbl sp show ?thesis by blast
qed

lemma covered_item:
  assumes wf: "wf_names md" and tbl: "tbl \<in> fst ` set (covering md tag tc ts)"
  shows "(key_of tbl, categories md tag tc ts tbl) \<in> set (collect_tables md tag tc ts)
         \<and> the (split_fqn (key_of tbl)) = tbl"
proof -
  from tbl have "dot_free tbl" using covering_dot_free [OF wf] by auto
  then have "the (split_fqn (key_of tbl)) = tbl" by (simp add: split_fqn_key_of)
  moreover from collect_categories [OF wf tbl]
  have "(key_of tbl, categories md tag tc ts tbl) \<in> set (collect_tables md tag tc ts)"
    by (rule map_of_SomeD)
  ultimately show ?thesis by simp
qed

lemma table_fqn_action_for:
  "split_fqn k \<noteq> None \<Longrightarrow> table_fqn (action_for col tag val (the (split_fqn k))) = k"
proof -
  assume "split_fqn k \<noteq> None"
  then obtain c s n where sp: "split_fqn k = Some (c, s, n)" by auto
  then have "k = table_key c s n" by (rule split_fqn_rebuild)
  with sp show ?thesis by (simp add: action_for_def)
qed

lemma plan_fqns:
  "list_all (\<lambda>p. split_fqn (fst p) \<noteq> None) items \<Longrightarrow>
   map table_fqn (map (\<lambda>p. action_for col tag val (the (split_fqn (fst p)))) (filter P items)) =
   map fst (filter P items)"
  by (induction items) (simp_all add: table_fqn_action_for)

lemma action_for_inj:
  assumes "dot_free a" "dot_free b" "action_for col tag val a = action_for col tag val b"
  shows "a = b"
proof -
  from assms(3) have "table_fqn (action_for col tag val a) = table_fqn (action_for col tag val b)"
    by simp
  then have "key_of a = key_of b"
    by (cases a, cases b) (simp add: action_for_def key_of_def)
  with assms(1,2) show ?thesis by (rule key_of_inject)
qed

text \<open>
  Claim C6, as the code has it. \<open>build_propagation_plan\<close> never raises. When no
  catalog or schema name of a table contains a dot, the dictionary it builds maps the
  key of every covered table to the union of the category tokens (split at commas,
  stripped, empty tokens dropped) of all catalog, schema and table bindings that cover
  the table, and its keys are exactly the keys of the covered tables; the plan holds
  exactly one action for each covered table whose categories contain the required one and
  whose columns contain the column, and no other action.
\<close>

theorem build_propagation_plan_per_table:
  "(\<exists>actions. build_propagation_plan md tag req col ctag cval tc ts = Inr actions)
   \<and> (wf_names md \<longrightarrow>
        (\<forall>tbl. tbl \<in> fst ` set (covering md tag tc ts) \<longrightarrow>
            map_of (collect_tables md tag tc ts) (key_of tbl) =
              Some (categories md tag tc ts tbl))
        \<and> set (map fst (collect_tables md tag tc ts)) = key_of ` fst ` set (covering md tag tc ts)
        \<and> (\<exists>actions. build_propagation_plan md tag req col ctag cval tc ts = Inr actions
              \<and> distinct (map table_fqn actions)
              \<and> set actions =
                  action_for col ctag cval `
                    {tbl \<in> fst ` set (covering md tag tc ts).
                       req \<in> categories md tag tc ts tbl
                       \<and> col \<in> set (case tbl of (c, s, n) \<Rightarrow> get_table_columns md c s n)}
              \<and> length actions =
                  card {tbl \<in> fst ` set (covering md tag tc ts).
                          req \<in> categories md tag tc ts tbl
                          \<and> col \<in> set (case tbl of (c, s, n) \<Rightarrow> get_table_columns md c s n)}))"
proof -
  let ?items = "collect_tables md tag tc ts"
  let ?P = "\<lambda>p. req \<in> snd p \<and>
                 col \<in> set (case the (split_fqn (fst p)) of (c, s, n) \<Rightarrow> get_table_columns md c s n)"
  let ?mk = "\<lambda>p. action_for col ctag cval (the (split_fqn (fst p)))"
  let ?actions = "map ?mk (filter ?P ?items)"
  let ?Q = "{tbl \<in> fst ` set (covering md tag tc ts).
               req \<in> categories md tag tc ts tbl
               \<and> col \<in> set (case tbl of (c, s, n) \<Rightarrow> get_table_columns md c s n)}"
  have built: "build_propagation_plan md tag req col ctag cval tc ts = Inr ?actions"
    by (rule build_closed)
  have fqns: "map table_fqn ?actions = map fst (filter ?P ?items)"
    using collect_keys_split by (rule plan_fqns)
  have dist: "distinct (map table_fqn ?actions)"
    unfolding fqns using collect_distinct [of md tag tc ts] by (rule distinct_map_filter)
  have wf_part: "set ?actions = action_for col ctag cval ` ?Q \<and> length ?actions = card ?Q"
    if wf: "wf_names md"
  proof -
    have sub: "set ?actions \<subseteq> action_for col ctag cval ` ?Q"
    proof
      fix a assume "a \<in> set ?actions"
      then have "a \<in> ?mk ` {p \<in> set ?items. ?P p}" by (simp only: set_map set_filter)
      then obtain p where p: "p \<in> set ?items" "?P p" "a = ?mk p" by blast
      from item_of_covered [OF wf p(1)] obtain tbl where
        tbl: "tbl \<in> fst ` set (covering md tag tc ts)" "the (split_fqn (fst p)) = tbl"
             "snd p = categories md tag tc ts tbl"
        by blast
      with p(2) have "tbl \<in> ?Q" by simp
      with p(3) tbl(2) show "a \<in> action_for col ctag cval ` ?Q" by blast
    qed
    have sup: "action_for col ctag cval ` ?Q \<subseteq> set ?actions"
    proof
      fix a assume "a \<in> action_for col ctag cval ` ?Q"
      then obtain tbl where tbl: "tbl \<in> ?Q" "a = action_for col ctag cval tbl" by blast
      then have cov: "tbl \<in> fst ` set (covering md tag tc ts)" by simp
      let ?p = "(key_of tbl, categories md tag tc ts tbl)"
      from covered_item [OF wf cov] have item: "?p \<in> set ?items"
        and sp: "the (split_fqn (key_of tbl)) = tbl" by simp_all
      from tbl(1) sp have "?P ?p" by simp
      with item have "?p \<in> {p \<in> set ?items. ?P p}" by blast
      then have "?mk ?p \<in> ?mk ` {p \<in> set ?items. ?P p}" by (rule imageI)
      then have "?mk ?p \<in> set ?actions" by (simp only: set_map set_filter)
      with sp tbl(2) show "a \<in> set ?actions" by simp
    qed
    from sub sup have eq: "set ?actions = action_for col ctag cval ` ?Q" by (rule equalityI)
    have "distinct ?actions" using dist by (rule distinct_map [THEN iffD1, THEN conjunct1])
    then have "card (set ?actions) = length ?actions" by (rule distinct_card)
    then have "length ?actions = card (set ?actions)" by (rule sym)
    also have "\<dots> = card (action_for col ctag cval ` ?Q)" by (simp only: eq)
    also have "\<dots> = card ?Q"
    proof (rule card_image)
      show "inj_on (action_for col ctag cval) ?Q"
      proof (rule inj_onI)
        fix a b assume a: "a \<in> ?Q" and b: "b \<in> ?Q"
          and e: "action_for col ctag cval a = action_for col ctag cval b"
        from a b have "dot_free a" "dot_free b" using covering_dot_free [OF wf] by auto
        then show "a = b" using e by (rule action_for_inj)
      qed
    qed
    finally have "length ?actions = card ?Q" .
    with eq show ?thesis by (rule conjI)
  qed
  have cats: "\<forall>tbl. tbl \<in> fst ` set (covering md tag tc ts) \<longrightarrow>
            map_of ?items (key_of tbl) = Some (categories md tag tc ts tbl)"
    if "wf_names md"
    using collect_categories [OF that] by blast
  show ?thesis
    using built dist wf_part cats collect_keys [of md tag tc ts] by blast
qed

text \<open>
  Claim C6 as stated, for every snapshot, fails: the dictionary key joins catalog,
  schema and table with dots and is split again at its first two dots. A tagged table
  with the wanted column in the catalog \<open>eu.prod\<close> is looked up as table
  \<open>prod.sales.T\<close> of catalog \<open>eu\<close>, no column is found, and the plan is empty.
\<close>

theorem plan_misses_table_in_dotted_catalog:
  "(''eu.prod'', ''sales'', ''T'') \<in> fst ` set (covering metadata_dotted ''category'' None None)
   \<and> ''A'' \<in> categories metadata_dotted ''category'' None None (''eu.prod'', ''sales'', ''T'')
   \<and> ''customer_id'' \<in> set (get_table_columns metadata_dotted ''eu.prod'' ''sales'' ''T'')
   \<and> build_propagation_plan metadata_dotted ''category'' ''A'' ''customer_id'' ''secure_contracts''
        ''true'' None None = Inr []"
  by code_simp

theorem build_propagation_plan_per_table_witness:
  "wf_names metadata0
   \<and> (''main'', ''sales'', ''T'') \<in> fst ` set (covering metadata0 ''category'' None None)
   \<and> map_of (collect_tables metadata0 ''category'' None None) ''main.sales.T'' =
       Some {''A'', ''B'', ''C''}
   \<and> build_propagation_plan metadata0 ''category'' ''B'' ''customer_id'' ''secure_contracts''
        ''true'' None None =
       Inr [action_for ''customer_id'' ''secure_contracts'' ''true'' (''main'', ''sales'', ''T'')]"
proof -
  have wf: "wf_names metadata0" by code_simp
  have cov: "(''main'', ''sales'', ''T'') \<in> fst ` set (covering metadata0 ''category'' None None)"
    by code_simp
  have key: "key_of (''main'', ''sales'', ''T'') = ''main.sales.T''" by code_simp
  have cats: "categories metadata0 ''category'' None None (''main'', ''sales'', ''T'') =
              {''A'', ''B'', ''C''}"
    by code_simp
  have plan: "build_propagation_plan metadata0 ''category'' ''B'' ''customer_id''
                ''secure_contracts'' ''true'' None None =
       Inr [action_for ''customer_id'' ''secure_contracts'' ''true'' (''main'', ''sales'', ''T'')]"
    by code_simp
  note body = build_propagation_plan_per_table
      [of metadata0 "''category''" "''B''" "''customer_id''" "''secure_contracts''" "''true''"
          None None, THEN conjunct2, THEN mp, OF wf]
  note looked_up = body [THEN conjunct1, THEN spec, THEN mp, OF cov]
  from looked_up have m: "map_of (collect_tables metadata0 ''category'' None None) ''main.sales.T'' =
       Some {''A'', ''B'', ''C''}"
    by (simp only: key cats)
  from wf cov m plan show ?thesis by (intro conjI)
qed

end
